theory Spec2Isabelle
  imports Main "HOL-Library.Word"
begin

section \<open>Data model\<close>

text \<open>
  The development embeds the binary reader of the repository: the byte sources of
  \<^verbatim>\<open>binary.py\<close>, the field descriptors of \<^verbatim>\<open>format.py\<close>, the result node of
  \<^verbatim>\<open>field_data.py\<close> and the engine of \<^verbatim>\<open>reader.py\<close>.

  Python integers are unbounded and modelled as \<open>int\<close>; a \<^verbatim>\<open>bytes\<close> object is a
  list of 8-bit words. Exceptions are values of the type \<open>error\<close>, and every function
  that can raise returns a sum with the error on the left.

  Modelling assumptions: the file behind a \<^verbatim>\<open>BinaryFile\<close> exists, can be opened and
  does not change, so it is represented by its contents; a preprocessing callable is a
  total, pure function from bytes to bytes. A file raises for an offset or a length beyond
  what the platform, its file system and its memory accept; these bounds differ from one
  machine to the next and \<open>get_bytes\<close> describes the reads inside them. The statements
  about decoding are therefore relative to what the read returns.
\<close>

type_synonym byte = "8 word"

type_synonym PreprocessorFunc = "(byte list \<Rightarrow> byte list) option"

datatype error =
    KeyError string
  | ValueError
  | OSError
  | AttributeError
  | AssertionError

datatype endianness = Little | Big

subsection \<open>Result nodes (\<^verbatim>\<open>field_data.py\<close>)\<close>

text \<open>
  The attribute \<^verbatim>\<open>val\<close> of a \<^verbatim>\<open>FieldData\<close> has the Python type \<^verbatim>\<open>Any\<close>; the
  reader stores \<^verbatim>\<open>None\<close>, an integer, a bytes object or a list of result nodes there.
\<close>

datatype py_val =
    VNone
  | VInt int
  | VBytes "byte list"
  | VList "FieldData list"
and FieldData =
    FieldData (name: string) (type: string) (location: int) (val: py_val)

subsection \<open>Byte sources (\<^verbatim>\<open>binary.py\<close>)\<close>

text \<open>
  \<^verbatim>\<open>BinaryFile\<close> is represented by the contents of its file and its endianness,
  \<^verbatim>\<open>BinaryBlock\<close> by its four attributes \<^verbatim>\<open>underlying_bin\<close>, \<^verbatim>\<open>offset\<close>,
  \<^verbatim>\<open>endianness\<close> and \<^verbatim>\<open>length\<close>.
\<close>

datatype Binary =
    BinaryFile "byte list" endianness
  | BinaryBlock Binary int endianness int

fun endianness_of :: "Binary \<Rightarrow> endianness" where
  "endianness_of (BinaryFile contents e) = e"
| "endianness_of (BinaryBlock underlying offset e len) = e"

definition BinaryBlock_init :: "Binary \<Rightarrow> int \<Rightarrow> int \<Rightarrow> Binary" where
  "BinaryBlock_init underlying offset len =
     BinaryBlock underlying offset (endianness_of underlying) len"

text \<open>
  \<^verbatim>\<open>BinaryFile.get_bytes\<close> seeks to \<open>start\<close> and reads \<open>length\<close> bytes. Seeking
  to a negative offset raises \<^verbatim>\<open>OSError\<close>; a buffered read of a length below \<open>-1\<close>
  raises \<^verbatim>\<open>ValueError\<close>, a read of length \<open>-1\<close> returns everything up to the end of
  the file, and a read past the end returns the bytes that are there. Offsets and lengths
  too large for the platform, where the file raises as well, are outside the model.
  \<^verbatim>\<open>BinaryBlock.get_bytes\<close> forwards to the underlying source, adding its offset.
\<close>

fun get_bytes :: "Binary \<Rightarrow> int \<Rightarrow> int \<Rightarrow> PreprocessorFunc \<Rightarrow> error + byte list" where
  "get_bytes (BinaryFile contents e) start len func =
     (if start < 0 then Inl OSError
      else if len < - 1 then Inl ValueError
      else
        let data = (if len = - 1 then drop (nat start) contents
                    else take (nat len) (drop (nat start) contents))
        in Inr (case func of None \<Rightarrow> data | Some f \<Rightarrow> f data))"
| "get_bytes (BinaryBlock underlying offset e blen) start len func =
     get_bytes underlying (start + offset) len func"

fun get_size :: "Binary \<Rightarrow> int" where
  "get_size (BinaryFile contents e) = int (length contents)"
| "get_size (BinaryBlock underlying offset e blen) = blen"

text \<open>
  \<^verbatim>\<open>int.from_bytes(bs, byteorder, signed=...)\<close>: the empty bytes object decodes to
  \<open>0\<close>; a signed value is the two's complement over \<open>8 * len(bs)\<close> bits.
\<close>

fun from_bytes_le :: "byte list \<Rightarrow> int" where
  "from_bytes_le [] = 0"
| "from_bytes_le (b # bs) = uint b + 256 * from_bytes_le bs"

definition from_bytes :: "byte list \<Rightarrow> endianness \<Rightarrow> bool \<Rightarrow> int" where
  "from_bytes bs e sgnd =
     (let u = (case e of Little \<Rightarrow> from_bytes_le bs | Big \<Rightarrow> from_bytes_le (rev bs));
          n = length bs
      in if sgnd \<and> 0 < n \<and> 2 ^ (8 * n - 1) \<le> u then u - 2 ^ (8 * n) else u)"

definition map_result :: "('a \<Rightarrow> 'b) \<Rightarrow> error + 'a \<Rightarrow> error + 'b" where
  "map_result f r = (case r of Inl e \<Rightarrow> Inl e | Inr x \<Rightarrow> Inr (f x))"

definition get_i64 :: "Binary \<Rightarrow> int \<Rightarrow> PreprocessorFunc \<Rightarrow> error + int" where
  "get_i64 b loc func = map_result (\<lambda>bs. from_bytes bs (endianness_of b) True) (get_bytes b loc 8 func)"

definition get_u64 :: "Binary \<Rightarrow> int \<Rightarrow> PreprocessorFunc \<Rightarrow> error + int" where
  "get_u64 b loc func = map_result (\<lambda>bs. from_bytes bs (endianness_of b) False) (get_bytes b loc 8 func)"

definition get_i32 :: "Binary \<Rightarrow> int \<Rightarrow> PreprocessorFunc \<Rightarrow> error + int" where
  "get_i32 b loc func = map_result (\<lambda>bs. from_bytes bs (endianness_of b) True) (get_bytes b loc 4 func)"

definition get_u32 :: "Binary \<Rightarrow> int \<Rightarrow> PreprocessorFunc \<Rightarrow> error + int" where
  "get_u32 b loc func = map_result (\<lambda>bs. from_bytes bs (endianness_of b) False) (get_bytes b loc 4 func)"

definition get_i16 :: "Binary \<Rightarrow> int \<Rightarrow> PreprocessorFunc \<Rightarrow> error + int" where
  "get_i16 b loc func = map_result (\<lambda>bs. from_bytes bs (endianness_of b) True) (get_bytes b loc 2 func)"

definition get_u16 :: "Binary \<Rightarrow> int \<Rightarrow> PreprocessorFunc \<Rightarrow> error + int" where
  "get_u16 b loc func = map_result (\<lambda>bs. from_bytes bs (endianness_of b) False) (get_bytes b loc 2 func)"

definition get_i8 :: "Binary \<Rightarrow> int \<Rightarrow> PreprocessorFunc \<Rightarrow> error + int" where
  "get_i8 b loc func = map_result (\<lambda>bs. from_bytes bs (endianness_of b) True) (get_bytes b loc 1 func)"

definition get_u8 :: "Binary \<Rightarrow> int \<Rightarrow> PreprocessorFunc \<Rightarrow> error + int" where
  "get_u8 b loc func = map_result (\<lambda>bs. from_bytes bs (endianness_of b) False) (get_bytes b loc 1 func)"

subsection \<open>Field descriptors (\<^verbatim>\<open>format.py\<close>)\<close>

text \<open>
  The length of a nested block is \<^verbatim>\<open>Optional[int | str]\<close>: absent, a literal byte
  count, or the name of a variable.
\<close>

datatype length_spec = LenNone | LenInt int | LenStr string

text \<open>
  One constructor per class, with the attributes in the order the class declares them.
  \<^verbatim>\<open>ArrayField\<close> declares nothing and inherits the bodies of the base class.
\<close>

datatype Field =
    UnknownField "int option" int
  | IntField "int option" int bool PreprocessorFunc "string option"
  | NestedBlockField "int option" length_spec "string option" PreprocessorFunc "Field list"
  | StructField "int option" "int option" "Field list" PreprocessorFunc "string option"
  | ArrayField

text \<open>The constructors \<^verbatim>\<open>__init__\<close>, with the parameters in the source's order.\<close>

definition UnknownField_init :: "int \<Rightarrow> int option \<Rightarrow> Field" where
  "UnknownField_init len start = UnknownField start len"

definition IntField_init ::
  "int \<Rightarrow> bool \<Rightarrow> string option \<Rightarrow> int option \<Rightarrow> PreprocessorFunc \<Rightarrow> Field" where
  "IntField_init bits sgnd nm start func =
     IntField start (if bits \<in> set [8, 16, 32, 64] then bits else 32) sgnd func nm"

definition NestedBlockField_init ::
  "int option \<Rightarrow> length_spec \<Rightarrow> string option \<Rightarrow> Field list \<Rightarrow> PreprocessorFunc \<Rightarrow> Field" where
  "NestedBlockField_init start len nm subfields func = NestedBlockField start len nm func subfields"

definition StructField_init ::
  "int option \<Rightarrow> int option \<Rightarrow> string option \<Rightarrow> Field list \<Rightarrow> PreprocessorFunc \<Rightarrow> Field" where
  "StructField_init start len nm flds func = StructField start len flds func nm"

text \<open>Python's \<^verbatim>\<open>str\<close> and \<^verbatim>\<open>hex\<close> of an integer.\<close>

definition digit_char :: "nat \<Rightarrow> char" where
  "digit_char d = ''0123456789abcdef'' ! d"

fun digits_of :: "nat \<Rightarrow> nat \<Rightarrow> string" where
  "digits_of base n =
     (if base < 2 \<or> n < base then [digit_char n]
      else digits_of base (n div base) @ [digit_char (n mod base)])"

definition str_py :: "int \<Rightarrow> string" where
  "str_py i = (if i < 0 then ''-'' @ digits_of 10 (nat (- i)) else digits_of 10 (nat i))"

definition hex_py :: "int \<Rightarrow> string" where
  "hex_py i = (if i < 0 then ''-0x'' @ digits_of 16 (nat (- i)) else ''0x'' @ digits_of 16 (nat i))"

fun get_type :: "Field \<Rightarrow> string" where
  "get_type (UnknownField start len) = ''unknown''"
| "get_type (IntField start bits sgnd func nm) = (if sgnd then ''i'' else ''u'') @ str_py bits"
| "get_type (NestedBlockField start len nm func subfields) = ''nested''"
| "get_type (StructField start len flds func nm) = ''struct''"
| "get_type ArrayField = ''None''"

fun get_start :: "Field \<Rightarrow> int option" where
  "get_start (UnknownField start len) = start"
| "get_start (IntField start bits sgnd func nm) = start"
| "get_start (NestedBlockField start len nm func subfields) = start"
| "get_start (StructField start len flds func nm) = start"
| "get_start ArrayField = None"

fun get_preprocessor :: "Field \<Rightarrow> PreprocessorFunc" where
  "get_preprocessor (UnknownField start len) = None"
| "get_preprocessor (IntField start bits sgnd func nm) = func"
| "get_preprocessor (NestedBlockField start len nm func subfields) = func"
| "get_preprocessor (StructField start len flds func nm) = func"
| "get_preprocessor ArrayField = None"

fun get_name :: "Field \<Rightarrow> string option" where
  "get_name (UnknownField start len) = None"
| "get_name (IntField start bits sgnd func nm) = nm"
| "get_name (NestedBlockField start len nm func subfields) = nm"
| "get_name (StructField start len flds func nm) = nm"
| "get_name ArrayField = None"

definition get_label :: "Field \<Rightarrow> int \<Rightarrow> string" where
  "get_label f loc =
     (case get_name f of
        Some nm \<Rightarrow> nm
      | None \<Rightarrow> ''untitled_'' @ get_type f @ ''_field_'' @ hex_py loc)"

text \<open>
  \<^verbatim>\<open>NestedBlockField.get_length\<close>: a name is looked up in the variables it is given
  (a missing key raises \<^verbatim>\<open>KeyError\<close>) and its value must be an integer; the method
  exists on nested blocks only.
\<close>

fun get_length :: "Field \<Rightarrow> (string \<rightharpoonup> py_val) \<Rightarrow> error + int" where
  "get_length (NestedBlockField start len nm func subfields) read_vars =
     (case len of
        LenStr v \<Rightarrow>
          (case read_vars v of
             None \<Rightarrow> Inl (KeyError v)
           | Some (VInt res) \<Rightarrow> Inr res
           | Some other \<Rightarrow> Inl ValueError)
      | LenInt n \<Rightarrow> Inr n
      | LenNone \<Rightarrow> Inl ValueError)"
| "get_length other read_vars = Inl AttributeError"

section \<open>The reader (\<^verbatim>\<open>reader.py\<close>)\<close>

record ReaderOpts =
  include_gaps :: bool

text \<open>The attribute \<^verbatim>\<open>fields\<close> of the class is the record field \<open>rfields\<close>.\<close>

record Reader =
  rfields :: "Field list"
  opts :: ReaderOpts
  vars :: "string \<rightharpoonup> py_val"
  preprocess :: PreprocessorFunc

definition Reader_init :: "Field list \<Rightarrow> ReaderOpts \<Rightarrow> PreprocessorFunc \<Rightarrow> Reader" where
  "Reader_init flds options pre =
     \<lparr>rfields = flds, opts = options, vars = Map.empty, preprocess = pre\<rparr>"

definition should_fill_blanks :: "Reader \<Rightarrow> bool" where
  "should_fill_blanks self = include_gaps (opts self)"

text \<open>
  \<^verbatim>\<open>compose\<close>: the block's preprocessor runs first, the field's on its result. Both
  arguments are callables or \<^verbatim>\<open>None\<close>, so the final assertion of the source is not
  reached.
\<close>

definition compose :: "PreprocessorFunc \<Rightarrow> PreprocessorFunc \<Rightarrow> PreprocessorFunc" where
  "compose block_preprocessor field_preprocessor =
     (case (block_preprocessor, field_preprocessor) of
        (None, None) \<Rightarrow> None
      | (None, Some f) \<Rightarrow> Some f
      | (Some g, None) \<Rightarrow> Some g
      | (Some g, Some f) \<Rightarrow> Some (\<lambda>bs. f (g bs)))"

text \<open>
  \<^verbatim>\<open>__get_next_field\<close> pops from the queue it is given; the model returns the chosen
  field together with the queue that is left. The queue is the deep copy that
  \<^verbatim>\<open>__consume_struct\<close> makes of the descriptor list: values are not shared in HOL, so
  the copy is the list itself and the descriptors of the reader are never touched by a pop.
  Where the source subtracts from \<^verbatim>\<open>next_starting_offset\<close> it has just tested it
  against \<^verbatim>\<open>None\<close>.
\<close>

definition get_next_field ::
  "Reader \<Rightarrow> Field list \<Rightarrow> int \<Rightarrow> int option \<Rightarrow> error + (Field option \<times> Field list)" where
  "get_next_field self queue loc binary_size =
     (if (case binary_size of Some sz \<Rightarrow> sz \<le> loc | None \<Rightarrow> False) then Inr (None, queue)
      else
        (case queue of
           [] \<Rightarrow>
             (case binary_size of
                Some sz \<Rightarrow>
                  if should_fill_blanks self
                  then Inr (Some (UnknownField_init (sz - loc) (Some loc)), queue)
                  else Inr (None, queue)
              | None \<Rightarrow> Inr (None, queue))
         | q0 # rest \<Rightarrow>
             (let next_starting_offset = get_start q0 in
              if (case next_starting_offset of Some s \<Rightarrow> loc < s | None \<Rightarrow> False) then
                (if should_fill_blanks self
                 then Inr (Some (UnknownField_init (the next_starting_offset - loc) (Some loc)), queue)
                 else Inr (Some q0, rest))
              else if (case next_starting_offset of Some s \<Rightarrow> s \<le> loc | None \<Rightarrow> True) then
                Inr (Some q0, rest)
              else Inl AssertionError)))"

text \<open>
  The methods \<^verbatim>\<open>read_binary\<close>, \<^verbatim>\<open>__consume_struct\<close> and
  \<^verbatim>\<open>__consume_field\<close> call each other. The loop of \<^verbatim>\<open>__consume_struct\<close> need
  not terminate, so the functions take a fuel that bounds the number of loop iterations along
  every path of calls; the result \<open>None\<close> means that the fuel did not suffice. A raised
  exception leaves the reader with the variables bound so far, so the reader is returned
  beside the error as well.

  \<open>consume_field_with\<close> is the body of \<^verbatim>\<open>__consume_field\<close>, with the method
  \<^verbatim>\<open>read_binary\<close> that it calls on the sub-reader as its first argument; the recursion
  is closed by \<open>consume_loop\<close>, and \<open>consume_field\<close> is the method itself. The reader
  built for a nested block is local to the call and is dropped with its variables.
\<close>

definition consume_field_with ::
      "(Reader \<Rightarrow> Binary \<Rightarrow> (Reader \<times> (error + py_val)) option) \<Rightarrow> Reader \<Rightarrow> Field \<Rightarrow> Binary \<Rightarrow> int \<Rightarrow> (Reader \<times> (error + int \<times> FieldData)) option"
where
  "consume_field_with sub_read self field binary cur_loc =
     (let start_byte = (case get_start field of Some s \<Rightarrow> s | None \<Rightarrow> cur_loc);
          preprocessor = compose (preprocess self) (get_preprocessor field);
          ty = get_type field;
          decoded =
            (if ty = ''unknown'' then
               (case field of
                  UnknownField st len \<Rightarrow>
                    Some (map_result (\<lambda>v. (VBytes v, start_byte + int (length v)))
                            (get_bytes binary start_byte len preprocessor))
                | _ \<Rightarrow> Some (Inl AttributeError))
             else if ty = ''u8'' then
               Some (map_result (\<lambda>v. (VInt v, start_byte + 1)) (get_u8 binary start_byte preprocessor))
             else if ty = ''i8'' then
               Some (map_result (\<lambda>v. (VInt v, start_byte + 1)) (get_i8 binary start_byte preprocessor))
             else if ty = ''u16'' then
               Some (map_result (\<lambda>v. (VInt v, start_byte + 2)) (get_u16 binary start_byte preprocessor))
             else if ty = ''i16'' then
               Some (map_result (\<lambda>v. (VInt v, start_byte + 2)) (get_i16 binary start_byte preprocessor))
             else if ty = ''u32'' then
               Some (map_result (\<lambda>v. (VInt v, start_byte + 4)) (get_u32 binary start_byte preprocessor))
             else if ty = ''i32'' then
               Some (map_result (\<lambda>v. (VInt v, start_byte + 4)) (get_i32 binary start_byte preprocessor))
             else if ty = ''u64'' then
               Some (map_result (\<lambda>v. (VInt v, start_byte + 8)) (get_u64 binary start_byte preprocessor))
             else if ty = ''i64'' then
               Some (map_result (\<lambda>v. (VInt v, start_byte + 8)) (get_i64 binary start_byte preprocessor))
             else if ty = ''nested'' then
               (case field of
                  NestedBlockField st len nm func subfields \<Rightarrow>
                    (case get_length field (vars self) of
                       Inl e \<Rightarrow> Some (Inl e)
                     | Inr block_len \<Rightarrow>
                         (case sub_read (Reader_init subfields (opts self) preprocessor)
                                 (BinaryBlock_init binary start_byte block_len) of
                            None \<Rightarrow> None
                          | Some (sub_reader, Inl e) \<Rightarrow> Some (Inl e)
                          | Some (sub_reader, Inr v) \<Rightarrow> Some (Inr (v, start_byte))))
                | _ \<Rightarrow> Some (Inl AttributeError))
             else Some (Inr (VNone, start_byte)))
      in case decoded of
           None \<Rightarrow> None
         | Some (Inl e) \<Rightarrow> Some (self, Inl e)
         | Some (Inr (v, new_loc)) \<Rightarrow>
             Some ((case get_name field of
                      Some nm \<Rightarrow> self\<lparr>vars := (vars self)(nm \<mapsto> v)\<rparr>
                    | None \<Rightarrow> self),
                   Inr (new_loc, FieldData (get_label field start_byte) ty start_byte v)))"

fun read_binary ::
      "nat \<Rightarrow> Reader \<Rightarrow> Binary \<Rightarrow> (Reader \<times> (error + py_val)) option"
  and consume_struct ::
      "nat \<Rightarrow> Reader \<Rightarrow> Field \<Rightarrow> Binary \<Rightarrow> int \<Rightarrow> (Reader \<times> (error + int \<times> FieldData)) option"
  and consume_loop ::
      "nat \<Rightarrow> Reader \<Rightarrow> int option \<Rightarrow> Binary \<Rightarrow> Field list \<Rightarrow> int \<Rightarrow> FieldData list
         \<Rightarrow> (Reader \<times> (error + int \<times> FieldData list)) option"
where
  "read_binary fuel self binary =
     (let cur_loc = 0;
          struct = StructField_init (Some 0) (Some (get_size binary)) None (rfields self) None
      in case consume_struct fuel self struct binary cur_loc of
           None \<Rightarrow> None
         | Some (self', Inl e) \<Rightarrow> Some (self', Inl e)
         | Some (self', Inr (end_loc, res)) \<Rightarrow> Some (self', Inr (val res)))"
| "consume_struct fuel self flds binary loc =
     (case flds of
        StructField st len queued_fields func nm \<Rightarrow>
          (case consume_loop fuel self len binary queued_fields loc [] of
             None \<Rightarrow> None
           | Some (self', Inl e) \<Rightarrow> Some (self', Inl e)
           | Some (self', Inr (cur_loc, completed_fields)) \<Rightarrow>
               Some (self', Inr (cur_loc,
                 FieldData (get_label flds loc) ''struct'' loc (VList completed_fields))))
      | _ \<Rightarrow> Some (self, Inl AttributeError))"
| "consume_loop 0 self limit binary queued_fields cur_loc completed_fields = None"
| "consume_loop (Suc fuel) self limit binary queued_fields cur_loc completed_fields =
     (case get_next_field self queued_fields cur_loc limit of
        Inl e \<Rightarrow> Some (self, Inl e)
      | Inr (None, queue') \<Rightarrow> Some (self, Inr (cur_loc, completed_fields))
      | Inr (Some next_field, queue') \<Rightarrow>
          (case consume_field_with (read_binary fuel) self next_field binary cur_loc of
             None \<Rightarrow> None
           | Some (self', Inl e) \<Rightarrow> Some (self', Inl e)
           | Some (self', Inr (new_loc, data)) \<Rightarrow>
               consume_loop fuel self' limit binary queue' new_loc (completed_fields @ [data])))"

definition consume_field ::
  "nat \<Rightarrow> Reader \<Rightarrow> Field \<Rightarrow> Binary \<Rightarrow> int \<Rightarrow> (Reader \<times> (error + int \<times> FieldData)) option" where
  "consume_field fuel = consume_field_with (read_binary fuel)"

section \<open>Statements of the specification\<close>

text \<open>
  The read of a view as the specification words it: the bytes of the underlying source at
  \<open>[off + start, off + start + n)\<close>, intersected with the window \<open>[off, off + blen)\<close> of the
  view. It is compared with \<open>get_bytes\<close> below.
\<close>

definition spec_view_bytes :: "byte list \<Rightarrow> int \<Rightarrow> int \<Rightarrow> int \<Rightarrow> int \<Rightarrow> byte list" where
  "spec_view_bytes contents off blen start n =
     map (\<lambda>i. contents ! nat i)
       (filter (\<lambda>i. 0 \<le> i \<and> i < int (length contents))
          [max (off + start) off .. min (off + start + n) (off + blen) - 1])"

text \<open>
  A caller may read any number of sources with one reader, whatever the outcome of each read:
  \<open>after_reads r r'\<close> holds when \<open>r'\<close> is the state of the reader \<open>r\<close> after some
  sequence of calls of \<^verbatim>\<open>read_binary\<close>.
\<close>

inductive after_reads :: "Reader \<Rightarrow> Reader \<Rightarrow> bool" where
  no_read: "after_reads r r"
| one_more: "after_reads r r1 \<Longrightarrow> read_binary fuel r1 binary = Some (r2, res) \<Longrightarrow> after_reads r r2"

text \<open>
  Notions used in the proofs about repeated reads. \<open>length_ref\<close> is the name that the
  length of a nested block refers to. A scope is \<open>shadowed\<close> by a descriptor sequence when
  every reference to a name bound in it comes after a sibling that carries this name.
  \<open>scope_over flds k V va vb\<close> relates the scopes of two runs over the sequence \<open>flds\<close> of
  which \<open>k\<close> descriptors are resolved: \<open>va\<close> started from the scope \<open>V\<close>, \<open>vb\<close> from the
  empty one.
\<close>

fun length_ref :: "Field \<Rightarrow> string option" where
  "length_ref (NestedBlockField st (LenStr v) nm func subfields) = Some v"
| "length_ref other = None"

definition shadowed :: "Field list \<Rightarrow> (string \<rightharpoonup> py_val) \<Rightarrow> bool" where
  "shadowed flds V \<longleftrightarrow>
     (\<forall>j n. j < length flds \<longrightarrow> length_ref (flds ! j) = Some n \<longrightarrow> V n \<noteq> None \<longrightarrow>
        (\<exists>i<j. get_name (flds ! i) = Some n))"

definition scope_over ::
  "Field list \<Rightarrow> nat \<Rightarrow> (string \<rightharpoonup> py_val) \<Rightarrow> (string \<rightharpoonup> py_val) \<Rightarrow> (string \<rightharpoonup> py_val) \<Rightarrow> bool" where
  "scope_over flds k V va vb \<longleftrightarrow>
     (\<forall>n. if (\<exists>i<k. get_name (flds ! i) = Some n) then va n = vb n
          else vb n = None \<and> va n = V n)"

section \<open>Evaluation\<close>

declare digits_of.simps [simp del]

lemmas reader_eval =
  consume_field_with_def get_next_field_def should_fill_blanks_def Reader_init_def
  BinaryBlock_init_def UnknownField_init_def IntField_init_def NestedBlockField_init_def
  StructField_init_def compose_def get_label_def hex_py_def str_py_def digits_of.simps
  digit_char_def map_result_def from_bytes_def
  get_u8_def get_i8_def get_u16_def get_i16_def get_u32_def get_i32_def get_u64_def get_i64_def

section \<open>Byte sources\<close>

text \<open>
  C2, as the specification states it: a read through a view returns only bytes inside the
  window of the view. The code does not do this: over a four-byte file, a view of length 2
  asked for four bytes returns all four, where the window holds two.
\<close>

theorem view_read_escapes_counterexample:
  "get_bytes (BinaryBlock_init (BinaryFile [1, 2, 3, 4] Little) 0 2) 0 4 None = Inr [1, 2, 3, 4]
   \<and> spec_view_bytes [1, 2, 3, 4] 0 2 0 4 = [1, 2]
   \<and> get_bytes (BinaryBlock_init (BinaryFile [1, 2, 3, 4] Little) 0 2) 0 4 None
       \<noteq> Inr (spec_view_bytes [1, 2, 3, 4] 0 2 0 4)"
  by code_simp

text \<open>
  C2, amended: a read through a view is the read of the underlying source at the requested
  offset plus the offset of the view, with the requested length unchanged; the declared
  length of the view is what \<open>get_size\<close> reports and plays no part in a read. Over a file,
  with a non-negative position and length and no transform, the bytes returned are those of
  the file at \<open>[off + start, off + start + n)\<close>, cut only at the end of the file.
\<close>

theorem view_read_forwards:
  "get_bytes (BinaryBlock_init underlying off blen) start n func
     = get_bytes underlying (start + off) n func
   \<and> get_size (BinaryBlock_init underlying off blen) = blen
   \<and> (0 \<le> start + off \<longrightarrow> 0 \<le> n \<longrightarrow>
        get_bytes (BinaryBlock_init (BinaryFile contents e) off blen) start n None
          = Inr (take (nat n) (drop (nat (start + off)) contents)))"
  by (simp add: BinaryBlock_init_def)

theorem view_read_forwards_witness:
  "get_bytes (BinaryBlock_init (BinaryFile [1, 2, 3, 4] Little) 1 2) 0 3 None = Inr [2, 3, 4]"
  using view_read_forwards [where start = 0 and off = 1 and n = 3 and blen = 2
      and contents = "[1, 2, 3, 4]" and e = Little and underlying = "BinaryFile [] Little"
      and func = None]
  by simp

text \<open>Facts about the decoders used below.\<close>

lemma map_result_simps:
  "map_result f (Inl e) = Inl e" "map_result f (Inr x) = Inr (f x)"
  by (simp_all add: map_result_def)

lemma map_result_eq_Inr: "map_result f r = Inr y \<longleftrightarrow> (\<exists>x. r = Inr x \<and> y = f x)"
  by (cases r) (auto simp: map_result_def)

lemma str_py_widths:
  "str_py 8 = ''8''" "str_py 16 = ''16''" "str_py 32 = ''32''" "str_py 64 = ''64''"
  by (simp_all add: str_py_def digits_of.simps digit_char_def)

lemma from_bytes_single: "from_bytes [b] e False = uint b"
  by (cases e) (simp_all add: from_bytes_def)

text \<open>
  C3, as the specification states it: an integer field of byte width \<open>w\<close> with fewer than
  \<open>w\<close> bytes left before the end of the source fails to decode. The code decodes it: a
  2-byte unsigned integer at offset 0 of the one-byte file \<open>05\<close> is read as 5, and the read of
  the schema holding that field returns a result tree.
\<close>

theorem short_int_read_counterexample:
  "get_u16 (BinaryFile [5] Little) 0 None = Inr 5
   \<and> map_option snd
        (read_binary 2 (Reader_init [IntField_init 16 False None None None]
            \<lparr>include_gaps = False\<rparr> None) (BinaryFile [5] Little))
      = Some (Inr (VList [FieldData ''untitled_u16_field_0x0'' ''u16'' 0 (VInt 5)]))"
  by code_simp

text \<open>
  The eight decoders are \<^verbatim>\<open>int.from_bytes\<close> of what \<open>get_bytes\<close> returns, on every
  source; on a view they are the decoders of the underlying source at the shifted offset.
\<close>

lemma decoders_unfold:
  "get_u8 b loc func = (case get_bytes b loc 1 func of Inl err \<Rightarrow> Inl err
      | Inr bs \<Rightarrow> Inr (from_bytes bs (endianness_of b) False))"
  "get_i8 b loc func = (case get_bytes b loc 1 func of Inl err \<Rightarrow> Inl err
      | Inr bs \<Rightarrow> Inr (from_bytes bs (endianness_of b) True))"
  "get_u16 b loc func = (case get_bytes b loc 2 func of Inl err \<Rightarrow> Inl err
      | Inr bs \<Rightarrow> Inr (from_bytes bs (endianness_of b) False))"
  "get_i16 b loc func = (case get_bytes b loc 2 func of Inl err \<Rightarrow> Inl err
      | Inr bs \<Rightarrow> Inr (from_bytes bs (endianness_of b) True))"
  "get_u32 b loc func = (case get_bytes b loc 4 func of Inl err \<Rightarrow> Inl err
      | Inr bs \<Rightarrow> Inr (from_bytes bs (endianness_of b) False))"
  "get_i32 b loc func = (case get_bytes b loc 4 func of Inl err \<Rightarrow> Inl err
      | Inr bs \<Rightarrow> Inr (from_bytes bs (endianness_of b) True))"
  "get_u64 b loc func = (case get_bytes b loc 8 func of Inl err \<Rightarrow> Inl err
      | Inr bs \<Rightarrow> Inr (from_bytes bs (endianness_of b) False))"
  "get_i64 b loc func = (case get_bytes b loc 8 func of Inl err \<Rightarrow> Inl err
      | Inr bs \<Rightarrow> Inr (from_bytes bs (endianness_of b) True))"
  by (simp_all add: get_u8_def get_i8_def get_u16_def get_i16_def get_u32_def get_i32_def
      get_u64_def get_i64_def map_result_def)

lemma decoders_through_view:
  "get_u8 (BinaryBlock_init underlying off blen) loc func = get_u8 underlying (loc + off) func"
  "get_i8 (BinaryBlock_init underlying off blen) loc func = get_i8 underlying (loc + off) func"
  "get_u16 (BinaryBlock_init underlying off blen) loc func = get_u16 underlying (loc + off) func"
  "get_i16 (BinaryBlock_init underlying off blen) loc func = get_i16 underlying (loc + off) func"
  "get_u32 (BinaryBlock_init underlying off blen) loc func = get_u32 underlying (loc + off) func"
  "get_i32 (BinaryBlock_init underlying off blen) loc func = get_i32 underlying (loc + off) func"
  "get_u64 (BinaryBlock_init underlying off blen) loc func = get_u64 underlying (loc + off) func"
  "get_i64 (BinaryBlock_init underlying off blen) loc func = get_i64 underlying (loc + off) func"
  by (simp_all add: get_u8_def get_i8_def get_u16_def get_i16_def get_u32_def get_i32_def
      get_u64_def get_i64_def BinaryBlock_init_def)

lemma from_bytes_empty: "from_bytes [] e sg = 0"
  by (cases e) (simp_all add: from_bytes_def)

lemma file_last_byte:
  assumes rd: "get_bytes (BinaryFile contents e) loc 2 None = Inr bs"
    and len: "int (length contents) = loc + 1"
  shows "bs = [contents ! nat loc]"
proof -
  from rd have nonneg: "0 \<le> loc" by (simp split: if_splits)
  with len have n: "length contents = Suc (nat loc)" by linarith
  then have "drop (nat loc) contents = [contents ! nat loc]"
    by (metis Cons_nth_drop_Suc drop_all lessI order_refl)
  with rd nonneg show ?thesis by simp
qed

lemma int_field_outcome:
  assumes b: "bits \<in> {8, 16, 32, 64}"
  shows "map_option snd
           (consume_field fuel self (IntField_init bits sg nm st pp) binary cur)
         = (case get_bytes binary (case st of Some s \<Rightarrow> s | None \<Rightarrow> cur) (bits div 8)
                   (compose (preprocess self) pp) of
              Inl err \<Rightarrow> Some (Inl err)
            | Inr bs \<Rightarrow>
                Some (Inr ((case st of Some s \<Rightarrow> s | None \<Rightarrow> cur) + bits div 8,
                  FieldData
                    (get_label (IntField_init bits sg nm st pp) (case st of Some s \<Rightarrow> s | None \<Rightarrow> cur))
                    (get_type (IntField_init bits sg nm st pp))
                    (case st of Some s \<Rightarrow> s | None \<Rightarrow> cur)
                    (VInt (from_bytes bs (endianness_of binary) sg)))))"
proof -
  consider "bits = 8" | "bits = 16" | "bits = 32" | "bits = 64" using b by auto
  then show ?thesis
  proof cases
    case 1
    then show ?thesis
      by (cases sg)
        (simp_all add: consume_field_def consume_field_with_def IntField_init_def
          str_py_widths decoders_unfold map_result_simps Let_def split: sum.splits)
  next
    case 2
    then show ?thesis
      by (cases sg)
        (simp_all add: consume_field_def consume_field_with_def IntField_init_def
          str_py_widths decoders_unfold map_result_simps Let_def split: sum.splits)
  next
    case 3
    then show ?thesis
      by (cases sg)
        (simp_all add: consume_field_def consume_field_with_def IntField_init_def
          str_py_widths decoders_unfold map_result_simps Let_def split: sum.splits)
  next
    case 4
    then show ?thesis
      by (cases sg)
        (simp_all add: consume_field_def consume_field_with_def IntField_init_def
          str_py_widths decoders_unfold map_result_simps Let_def split: sum.splits)
  qed
qed

text \<open>
  C3, amended: on every source, file or view, and with every transform, a fixed-width decoder
  fails only when the read of its bytes fails; the number of bytes that the read returns is
  never checked. Whatever the read returns, the declared width, fewer bytes or none, the
  decoder returns \<^verbatim>\<open>int.from_bytes\<close> of exactly these bytes: a 2-byte unsigned integer
  whose read returns one byte decodes to that byte, and to 0 when the read returns none; in a
  file this is the case of one byte left before the end. A decoder on a view reads the
  underlying source at the shifted offset, so a field at the end of a view decodes bytes from
  behind the view when the underlying source has them. The reader resolves an integer field
  of 8, 16, 32 or 64 bits, with or without an explicit start, to this value whenever the read
  returns, and moves the cursor by the full declared width from the effective start.
\<close>

theorem short_int_read_decodes:
  "get_u8 b loc func = (case get_bytes b loc 1 func of Inl err \<Rightarrow> Inl err
      | Inr bs \<Rightarrow> Inr (from_bytes bs (endianness_of b) False))
   \<and> get_i8 b loc func = (case get_bytes b loc 1 func of Inl err \<Rightarrow> Inl err
      | Inr bs \<Rightarrow> Inr (from_bytes bs (endianness_of b) True))
   \<and> get_u16 b loc func = (case get_bytes b loc 2 func of Inl err \<Rightarrow> Inl err
      | Inr bs \<Rightarrow> Inr (from_bytes bs (endianness_of b) False))
   \<and> get_i16 b loc func = (case get_bytes b loc 2 func of Inl err \<Rightarrow> Inl err
      | Inr bs \<Rightarrow> Inr (from_bytes bs (endianness_of b) True))
   \<and> get_u32 b loc func = (case get_bytes b loc 4 func of Inl err \<Rightarrow> Inl err
      | Inr bs \<Rightarrow> Inr (from_bytes bs (endianness_of b) False))
   \<and> get_i32 b loc func = (case get_bytes b loc 4 func of Inl err \<Rightarrow> Inl err
      | Inr bs \<Rightarrow> Inr (from_bytes bs (endianness_of b) True))
   \<and> get_u64 b loc func = (case get_bytes b loc 8 func of Inl err \<Rightarrow> Inl err
      | Inr bs \<Rightarrow> Inr (from_bytes bs (endianness_of b) False))
   \<and> get_i64 b loc func = (case get_bytes b loc 8 func of Inl err \<Rightarrow> Inl err
      | Inr bs \<Rightarrow> Inr (from_bytes bs (endianness_of b) True))
   \<and> get_u8 (BinaryBlock_init underlying off blen) loc func = get_u8 underlying (loc + off) func
   \<and> get_i8 (BinaryBlock_init underlying off blen) loc func = get_i8 underlying (loc + off) func
   \<and> get_u16 (BinaryBlock_init underlying off blen) loc func = get_u16 underlying (loc + off) func
   \<and> get_i16 (BinaryBlock_init underlying off blen) loc func = get_i16 underlying (loc + off) func
   \<and> get_u32 (BinaryBlock_init underlying off blen) loc func = get_u32 underlying (loc + off) func
   \<and> get_i32 (BinaryBlock_init underlying off blen) loc func = get_i32 underlying (loc + off) func
   \<and> get_u64 (BinaryBlock_init underlying off blen) loc func = get_u64 underlying (loc + off) func
   \<and> get_i64 (BinaryBlock_init underlying off blen) loc func = get_i64 underlying (loc + off) func
   \<and> (\<forall>x. get_bytes b loc 2 func = Inr [x] \<longrightarrow> get_u16 b loc func = Inr (uint x))
   \<and> (get_bytes b loc 2 func = Inr [] \<longrightarrow> get_u16 b loc func = Inr 0)
   \<and> (\<forall>bs. get_bytes (BinaryFile contents e) loc 2 None = Inr bs \<longrightarrow>
          int (length contents) = loc + 1 \<longrightarrow>
          get_u16 (BinaryFile contents e) loc None = Inr (uint (contents ! nat loc)))
   \<and> (bits \<in> {8, 16, 32, 64} \<longrightarrow>
        map_option snd
           (consume_field fuel self (IntField_init bits sg nm st pp) binary cur)
         = (case get_bytes binary (case st of Some s \<Rightarrow> s | None \<Rightarrow> cur) (bits div 8)
                   (compose (preprocess self) pp) of
              Inl err \<Rightarrow> Some (Inl err)
            | Inr bs \<Rightarrow>
                Some (Inr ((case st of Some s \<Rightarrow> s | None \<Rightarrow> cur) + bits div 8,
                  FieldData
                    (get_label (IntField_init bits sg nm st pp) (case st of Some s \<Rightarrow> s | None \<Rightarrow> cur))
                    (get_type (IntField_init bits sg nm st pp))
                    (case st of Some s \<Rightarrow> s | None \<Rightarrow> cur)
                    (VInt (from_bytes bs (endianness_of binary) sg))))))"
proof -
  have one: "get_u16 b loc func = Inr (uint x)" if "get_bytes b loc 2 func = Inr [x]" for x
    using that by (simp add: decoders_unfold(3) from_bytes_single)
  have none: "get_u16 b loc func = Inr 0" if "get_bytes b loc 2 func = Inr []"
    using that by (simp add: decoders_unfold(3) from_bytes_empty)
  have last: "get_u16 (BinaryFile contents e) loc None = Inr (uint (contents ! nat loc))"
    if rd: "get_bytes (BinaryFile contents e) loc 2 None = Inr bs"
      and len: "int (length contents) = loc + 1" for bs
  proof -
    from file_last_byte [OF rd len] rd
    have "get_bytes (BinaryFile contents e) loc 2 None = Inr [contents ! nat loc]" by simp
    then show ?thesis
      by (simp only: decoders_unfold(3) sum.case from_bytes_single)
  qed
  show ?thesis
    apply (intro conjI allI impI)
                       apply (rule decoders_unfold)+
               apply (rule decoders_through_view)+
       apply (erule one)
      apply (erule none)
     apply (erule (1) last)
    apply (erule int_field_outcome)
    done
qed

theorem short_int_read_decodes_witness:
  "get_u16 (BinaryFile [7, 5] Big) 1 None = Inr 5
   \<and> get_u16 (BinaryBlock_init (BinaryFile [1, 2, 3, 4] Little) 0 1) 0 None = Inr 513
   \<and> map_option snd
        (consume_field 0 (Reader_init [] \<lparr>include_gaps = False\<rparr> None)
           (IntField_init 16 False None None None) (BinaryFile [7, 5] Big) 1)
      = Some (Inr (3, FieldData ''untitled_u16_field_0x1'' ''u16'' 1 (VInt 5)))"
proof -
  have rd: "get_bytes (BinaryFile [7, 5] Big) 1 2 None = Inr [5]" by simp
  have len: "int (length [7, 5 :: byte]) = 1 + 1" by simp
  have bits: "(16 :: int) \<in> {8, 16, 32, 64}" by simp
  note inst = short_int_read_decodes [where b = "BinaryFile [7, 5] Big" and loc = 1
      and func = None and contents = "[7, 5]" and e = Big and bits = 16
      and self = "Reader_init [] \<lparr>include_gaps = False\<rparr> None" and sg = False and nm = None
      and st = None and pp = None and binary = "BinaryFile [7, 5] Big"
      and fuel = 0 and cur = 1 and underlying = "BinaryFile [1, 2, 3, 4] Little" and off = 0
      and blen = 1]
  have a: "get_u16 (BinaryFile [7, 5] Big) 1 None = Inr 5"
    using inst rd len by (simp add: from_bytes_def)
  have v: "get_u16 (BinaryBlock_init (BinaryFile [1, 2, 3, 4] Little) 0 1) 0 None = Inr 513"
    using short_int_read_decodes [where loc = 0 and func = None
        and underlying = "BinaryFile [1, 2, 3, 4] Little" and off = 0 and blen = 1
        and b = "BinaryFile [1, 2, 3, 4] Little"]
    by (simp add: from_bytes_def)
  have r: "map_option snd
        (consume_field 0 (Reader_init [] \<lparr>include_gaps = False\<rparr> None)
           (IntField_init 16 False None None None) (BinaryFile [7, 5] Big) 1)
      = Some (Inr (3, FieldData ''untitled_u16_field_0x1'' ''u16'' 1 (VInt 5)))"
    using inst bits rd
    by (simp add: Reader_init_def IntField_init_def get_label_def hex_py_def str_py_def
        digits_of.simps digit_char_def from_bytes_def compose_def)
  from a v r show ?thesis by (intro conjI)
qed

section \<open>Selecting the next field\<close>

lemma get_next_field_opts:
  "opts rA = opts rB \<Longrightarrow> get_next_field rA queue cur limit = get_next_field rB queue cur limit"
  unfolding get_next_field_def should_fill_blanks_def by (simp only:)

lemma get_next_field_queue:
  assumes "get_next_field self queue cur limit = Inr (Some nf, queue')"
  shows "(get_name nf = None \<or> nf \<in> set queue) \<and> set queue' \<subseteq> set queue"
  using assms
  by (auto simp: get_next_field_def UnknownField_init_def Let_def
      split: if_splits list.splits option.splits)

lemma next_field_rule1:
  "limit = Some L \<Longrightarrow> L \<le> cur \<Longrightarrow> get_next_field self queue cur limit = Inr (None, queue)"
  by (simp add: get_next_field_def)

lemma next_field_rule2:
  "get_next_field self [] cur limit
       = Inr (if should_fill_blanks self \<and> (\<exists>L. limit = Some L \<and> cur < L)
              then Some (UnknownField_init (the limit - cur) (Some cur)) else None, [])"
  by (cases limit) (simp_all add: get_next_field_def)

lemma next_field_rule3a:
  "get_start qhead = Some s \<Longrightarrow> cur < s \<Longrightarrow> (\<forall>L. limit = Some L \<longrightarrow> cur < L) \<Longrightarrow>
         get_next_field self (qhead # rest) cur limit
           = (if should_fill_blanks self
              then Inr (Some (UnknownField_init (s - cur) (Some cur)), qhead # rest)
              else Inr (Some qhead, rest))"
  by (cases limit) (simp_all add: get_next_field_def)

lemma next_field_rule3b:
  "get_start qhead = None \<or> (\<exists>s. get_start qhead = Some s \<and> s \<le> cur) \<Longrightarrow>
        (\<forall>L. limit = Some L \<longrightarrow> cur < L) \<Longrightarrow>
         get_next_field self (qhead # rest) cur limit = Inr (Some qhead, rest)"
  by (cases limit; cases "get_start qhead") (auto simp add: get_next_field_def)

lemma four_le: "4 \<le> (fuel :: nat) \<Longrightarrow> fuel = Suc (Suc (Suc (Suc (fuel - 4))))"
  by simp

lemma length_10_explode:
  assumes "length (xs :: 'a list) = 10"
  obtains b0 b1 b2 b3 b4 b5 b6 b7 b8 b9 where "xs = [b0, b1, b2, b3, b4, b5, b6, b7, b8, b9]"
proof -
  from assms have "xs = [xs ! 0, xs ! 1, xs ! 2, xs ! 3, xs ! 4, xs ! 5, xs ! 6, xs ! 7, xs ! 8, xs ! 9]"
    by (intro nth_equalityI) (auto simp: nth_Cons' less_Suc_eq numeral_eq_Suc)
  then show ?thesis using that by blast
qed

lemma gap_fill_scenario:
  assumes "length contents = 10"
  shows "map_option snd
           (read_binary (Suc (Suc (Suc (Suc fuel))))
              (Reader_init [IntField_init 8 False (Some ''x'') (Some 2) None]
                 \<lparr>include_gaps = True\<rparr> None)
              (BinaryFile contents e))
         = Some (Inr (VList
             [FieldData ''untitled_unknown_field_0x0'' ''unknown'' 0 (VBytes (take 2 contents)),
              FieldData ''x'' ''u8'' 2 (VInt (uint (contents ! 2))),
              FieldData ''untitled_unknown_field_0x3'' ''unknown'' 3 (VBytes (drop 3 contents))]))"
proof -
  from assms obtain b0 b1 b2 b3 b4 b5 b6 b7 b8 b9
    where c: "contents = [b0, b1, b2, b3, b4, b5, b6, b7, b8, b9]"
    by (rule length_10_explode)
  show ?thesis
    unfolding c by (cases e) (simp_all add: reader_eval)
qed

text \<open>
  C7: the selection policy. With the bound known and reached, consumption stops. With the
  queue empty, a single unknown field from the cursor to the bound is made exactly when gaps
  are filled and the bound is known (and not reached); otherwise consumption stops. With a
  queued descriptor whose explicit start lies after the cursor, an unknown field from the
  cursor to that start is made and the descriptor stays queued when gaps are filled, and the
  descriptor is taken from the queue as it is when they are not. A descriptor without an
  explicit start, or with one at or before the cursor, is taken from the queue. For every
  10-byte source, the schema of one unsigned byte \<^verbatim>\<open>x\<close> at start 2 read with gap filling
  gives exactly three nodes: the unknown bytes at offset 0 of length 2, \<^verbatim>\<open>x\<close> at offset
  2, and the unknown bytes at offset 3 of length 7.
\<close>

theorem next_field_policy:
  "(\<forall>L. limit = Some L \<longrightarrow> L \<le> cur \<longrightarrow> get_next_field self queue cur limit = Inr (None, queue))
   \<and> get_next_field self [] cur limit
       = Inr (if should_fill_blanks self \<and> (\<exists>L. limit = Some L \<and> cur < L)
              then Some (UnknownField_init (the limit - cur) (Some cur)) else None, [])
   \<and> (\<forall>s. get_start qhead = Some s \<longrightarrow> cur < s \<longrightarrow> (\<forall>L. limit = Some L \<longrightarrow> cur < L) \<longrightarrow>
         get_next_field self (qhead # rest) cur limit
           = (if should_fill_blanks self
              then Inr (Some (UnknownField_init (s - cur) (Some cur)), qhead # rest)
              else Inr (Some qhead, rest)))
   \<and> ((get_start qhead = None \<or> (\<exists>s. get_start qhead = Some s \<and> s \<le> cur)) \<longrightarrow>
        (\<forall>L. limit = Some L \<longrightarrow> cur < L) \<longrightarrow>
         get_next_field self (qhead # rest) cur limit = Inr (Some qhead, rest))
   \<and> (length contents = 10 \<longrightarrow> 4 \<le> fuel \<longrightarrow>
        map_option snd
          (read_binary fuel
             (Reader_init [IntField_init 8 False (Some ''x'') (Some 2) None]
                \<lparr>include_gaps = True\<rparr> None)
             (BinaryFile contents e))
        = Some (Inr (VList
            [FieldData ''untitled_unknown_field_0x0'' ''unknown'' 0 (VBytes (take 2 contents)),
             FieldData ''x'' ''u8'' 2 (VInt (uint (contents ! 2))),
             FieldData ''untitled_unknown_field_0x3'' ''unknown'' 3 (VBytes (drop 3 contents))])))"
proof (intro conjI allI impI)
  fix L assume "limit = Some L" "L \<le> cur"
  then show "get_next_field self queue cur limit = Inr (None, queue)"
    by (rule next_field_rule1)
next
  show "get_next_field self [] cur limit
       = Inr (if should_fill_blanks self \<and> (\<exists>L. limit = Some L \<and> cur < L)
              then Some (UnknownField_init (the limit - cur) (Some cur)) else None, [])"
    by (rule next_field_rule2)
next
  fix s assume "get_start qhead = Some s" "cur < s" "\<forall>L. limit = Some L \<longrightarrow> cur < L"
  then show "get_next_field self (qhead # rest) cur limit
           = (if should_fill_blanks self
              then Inr (Some (UnknownField_init (s - cur) (Some cur)), qhead # rest)
              else Inr (Some qhead, rest))"
    by (rule next_field_rule3a)
next
  assume "get_start qhead = None \<or> (\<exists>s. get_start qhead = Some s \<and> s \<le> cur)"
    "\<forall>L. limit = Some L \<longrightarrow> cur < L"
  then show "get_next_field self (qhead # rest) cur limit = Inr (Some qhead, rest)"
    by (rule next_field_rule3b)
next
  assume len: "length contents = 10" and "4 \<le> fuel"
  then have f: "fuel = Suc (Suc (Suc (Suc (fuel - 4))))" by (simp only: four_le [symmetric])
  show "map_option snd
          (read_binary fuel
             (Reader_init [IntField_init 8 False (Some ''x'') (Some 2) None]
                \<lparr>include_gaps = True\<rparr> None)
             (BinaryFile contents e))
        = Some (Inr (VList
            [FieldData ''untitled_unknown_field_0x0'' ''unknown'' 0 (VBytes (take 2 contents)),
             FieldData ''x'' ''u8'' 2 (VInt (uint (contents ! 2))),
             FieldData ''untitled_unknown_field_0x3'' ''unknown'' 3 (VBytes (drop 3 contents))]))"
    by (subst f) (rule gap_fill_scenario [OF len])
qed

theorem next_field_policy_witness:
  "get_next_field (Reader_init [] \<lparr>include_gaps = True\<rparr> None)
     [IntField_init 8 False (Some ''x'') (Some 2) None] 0 (Some 10)
   = Inr (Some (UnknownField_init 2 (Some 0)), [IntField_init 8 False (Some ''x'') (Some 2) None])
   \<and> get_next_field (Reader_init [] \<lparr>include_gaps = True\<rparr> None)
     [IntField_init 8 False (Some ''x'') (Some 2) None] 2 (Some 10)
   = Inr (Some (IntField_init 8 False (Some ''x'') (Some 2) None), [])
   \<and> get_next_field (Reader_init [] \<lparr>include_gaps = True\<rparr> None) [] 3 (Some 10)
   = Inr (Some (UnknownField_init 7 (Some 3)), [])
   \<and> get_next_field (Reader_init [] \<lparr>include_gaps = True\<rparr> None) [] 10 (Some 10) = Inr (None, [])
   \<and> map_option snd
        (read_binary 4
           (Reader_init [IntField_init 8 False (Some ''x'') (Some 2) None]
              \<lparr>include_gaps = True\<rparr> None)
           (BinaryFile [10, 11, 12, 13, 14, 15, 16, 17, 18, 19] Big))
      = Some (Inr (VList
          [FieldData ''untitled_unknown_field_0x0'' ''unknown'' 0 (VBytes [10, 11]),
           FieldData ''x'' ''u8'' 2 (VInt 12),
           FieldData ''untitled_unknown_field_0x3'' ''unknown'' 3
             (VBytes [13, 14, 15, 16, 17, 18, 19])]))"
  using next_field_policy [where self = "Reader_init [] \<lparr>include_gaps = True\<rparr> None"
      and queue = "[]" and cur = 10 and limit = "Some 10" and fuel = 4 and e = Big
      and contents = "[10, 11, 12, 13, 14, 15, 16, 17, 18, 19]"
      and qhead = "IntField_init 8 False (Some ''x'') (Some 2) None" and rest = "[]"]
    next_field_policy [where self = "Reader_init [] \<lparr>include_gaps = True\<rparr> None"
      and cur = 0 and limit = "Some 10"
      and qhead = "IntField_init 8 False (Some ''x'') (Some 2) None" and rest = "[]"]
    next_field_policy [where self = "Reader_init [] \<lparr>include_gaps = True\<rparr> None"
      and cur = 2 and limit = "Some 10"
      and qhead = "IntField_init 8 False (Some ''x'') (Some 2) None" and rest = "[]"]
    next_field_policy [where self = "Reader_init [] \<lparr>include_gaps = True\<rparr> None"
      and cur = 3 and limit = "Some 10"]
  by (simp add: IntField_init_def should_fill_blanks_def Reader_init_def)

section \<open>Resolving one descriptor\<close>

text \<open>
  C1: the cursor returned for a nested block should be its start plus its length. The code
  leaves the cursor at the start of the block, the only branch of the match that does not
  assign \<^verbatim>\<open>new_loc\<close>: a nested block of length 2 at offset 0 returns the cursor 0, and the
  one-byte field that follows it in the schema is read at offset 0, inside the block, where
  the claim places it at offset 2.
\<close>

theorem nested_cursor_not_advanced:
  "map_option snd
     (consume_field 1 (Reader_init [] \<lparr>include_gaps = False\<rparr> None)
        (NestedBlockField_init (Some 0) (LenInt 2) None [] None) (BinaryFile [1, 2, 3, 4] Little) 0)
   = Some (Inr (0, FieldData ''untitled_nested_field_0x0'' ''nested'' 0 (VList [])))
   \<and> map_option snd
        (read_binary 3
           (Reader_init [NestedBlockField_init (Some 0) (LenInt 2) None [] None,
                         IntField_init 8 False (Some ''x'') None None]
              \<lparr>include_gaps = False\<rparr> None)
           (BinaryFile [1, 2, 3, 4] Little))
      = Some (Inr (VList [FieldData ''untitled_nested_field_0x0'' ''nested'' 0 (VList []),
                          FieldData ''x'' ''u8'' 0 (VInt 1)]))"
  by code_simp

text \<open>
  C4: a descriptor of type struct in a field sequence should be consumed recursively. The
  match of \<^verbatim>\<open>__consume_field\<close> has no branch for the type \<^verbatim>\<open>struct\<close>, so the default
  branch applies: the node holds \<^verbatim>\<open>None\<close>, the children are not read and the cursor stays
  at the start, while \<^verbatim>\<open>__consume_struct\<close> on the same descriptor reads the child and
  moves the cursor to 1.
\<close>

theorem struct_field_not_consumed:
  "map_option snd
     (consume_field 2 (Reader_init [] \<lparr>include_gaps = False\<rparr> None)
        (StructField_init None None None [IntField_init 8 False None None None] None)
        (BinaryFile [7] Little) 0)
   = Some (Inr (0, FieldData ''untitled_struct_field_0x0'' ''struct'' 0 VNone))
   \<and> map_option snd
        (consume_struct 2 (Reader_init [] \<lparr>include_gaps = False\<rparr> None)
           (StructField_init None None None [IntField_init 8 False None None None] None)
           (BinaryFile [7] Little) 0)
      = Some (Inr (1, FieldData ''untitled_struct_field_0x0'' ''struct'' 0
                 (VList [FieldData ''untitled_u8_field_0x0'' ''u8'' 0 (VInt 7)])))
   \<and> map_option snd
        (read_binary 2
           (Reader_init [StructField_init None None None [IntField_init 8 False None None None] None]
              \<lparr>include_gaps = False\<rparr> None)
           (BinaryFile [7] Little))
      = Some (Inr (VList [FieldData ''untitled_struct_field_0x0'' ''struct'' 0 VNone]))"
  by code_simp

text \<open>
  C5, as the specification states it: within one scope the cursor never moves backward. A
  descriptor with an explicit start behind the cursor is resolved at that start: with the
  cursor at 6, a one-byte field with start 0 leaves the cursor at 1, and in a read the field
  that follows it is placed at offset 1.
\<close>

theorem cursor_moves_backward_counterexample:
  "map_option snd
     (consume_field 0 (Reader_init [] \<lparr>include_gaps = False\<rparr> None)
        (IntField_init 8 False None (Some 0) None) (BinaryFile [1, 2, 3, 4, 5, 6, 7] Little) 6)
   = Some (Inr (1, FieldData ''untitled_u8_field_0x0'' ''u8'' 0 (VInt 1)))
   \<and> (1 :: int) < 6
   \<and> map_option snd
        (read_binary 4
           (Reader_init [IntField_init 8 False None (Some 5) None,
                         IntField_init 8 False None (Some 0) None,
                         IntField_init 8 False (Some ''z'') None None]
              \<lparr>include_gaps = False\<rparr> None)
           (BinaryFile [1, 2, 3, 4, 5, 6, 7] Little))
      = Some (Inr (VList [FieldData ''untitled_u8_field_0x5'' ''u8'' 5 (VInt 6),
                          FieldData ''untitled_u8_field_0x0'' ''u8'' 0 (VInt 1),
                          FieldData ''z'' ''u8'' 1 (VInt 2)]))"
  by code_simp

lemma consume_field_with_cursor:
  assumes "consume_field_with sub_read self field binary cur = Some (self', Inr (new_loc, d))"
  shows "(case get_start field of Some s \<Rightarrow> s | None \<Rightarrow> cur) \<le> new_loc"
  using assms
  unfolding consume_field_with_def Let_def
  by (auto simp: map_result_eq_Inr split: if_splits option.splits sum.splits Field.splits prod.splits)

text \<open>
  C5, amended: the cursor after resolving a descriptor is never before the effective start of
  that descriptor (its explicit start if it has one, the cursor otherwise). So the cursor
  does not move backward over a descriptor that has no explicit start, or whose explicit
  start is at or after the cursor.
\<close>

theorem cursor_not_before_start:
  assumes "consume_field fuel self field binary cur = Some (self', Inr (new_loc, d))"
  shows "(case get_start field of Some s \<Rightarrow> s | None \<Rightarrow> cur) \<le> new_loc
         \<and> (get_start field = None \<longrightarrow> cur \<le> new_loc)
         \<and> (\<forall>s. get_start field = Some s \<longrightarrow> cur \<le> s \<longrightarrow> cur \<le> new_loc)"
  using consume_field_with_cursor [OF assms [unfolded consume_field_def]]
  by (auto split: option.splits)

theorem cursor_not_before_start_witness:
  "consume_field 0 (Reader_init [] \<lparr>include_gaps = False\<rparr> None)
     (IntField_init 8 False None None None) (BinaryFile [1, 2, 3] Little) 2
   = Some (Reader_init [] \<lparr>include_gaps = False\<rparr> None,
           Inr (3, FieldData ''untitled_u8_field_0x2'' ''u8'' 2 (VInt 3)))
   \<and> (2 :: int) \<le> 3"
proof -
  have h: "consume_field 0 (Reader_init [] \<lparr>include_gaps = False\<rparr> None)
     (IntField_init 8 False None None None) (BinaryFile [1, 2, 3] Little) 2
   = Some (Reader_init [] \<lparr>include_gaps = False\<rparr> None,
           Inr (3, FieldData ''untitled_u8_field_0x2'' ''u8'' 2 (VInt 3)))"
    by (simp add: consume_field_def consume_field_with_def Reader_init_def IntField_init_def
        get_label_def hex_py_def str_py_def digits_of.simps digit_char_def from_bytes_def
        compose_def get_u8_def map_result_def)
  from cursor_not_before_start [OF h] show ?thesis using h by simp
qed

section \<open>Scopes\<close>

text \<open>
  What resolving one descriptor does to the reader: an error leaves it as it was, a result
  binds the value under the name of the descriptor, if it has one, and changes nothing else.
\<close>

lemma consume_field_with_result:
  assumes "consume_field_with sub_read self field binary cur = Some (self', res)"
  shows "(\<exists>e. res = Inl e \<and> self' = self)
       \<or> (\<exists>v new_loc. res = Inr (new_loc,
              FieldData (get_label field (case get_start field of Some s \<Rightarrow> s | None \<Rightarrow> cur))
                (get_type field) (case get_start field of Some s \<Rightarrow> s | None \<Rightarrow> cur) v)
            \<and> self' = (case get_name field of
                         Some nm \<Rightarrow> self\<lparr>vars := (vars self)(nm \<mapsto> v)\<rparr>
                       | None \<Rightarrow> self))"
  using assms
  unfolding consume_field_with_def Let_def
  by (simp split: option.splits sum.splits prod.splits) blast+

lemma consume_field_with_frame:
  assumes "consume_field_with sub_read self field binary cur = Some (self', res)"
  shows "rfields self' = rfields self \<and> opts self' = opts self
       \<and> preprocess self' = preprocess self
       \<and> (\<forall>n. Some n \<noteq> get_name field \<longrightarrow> vars self' n = vars self n)
       \<and> dom (vars self) \<subseteq> dom (vars self')"
  using consume_field_with_result [OF assms]
  by (auto split: option.splits)

lemma map_option_snd_finish:
  "map_option snd
     (case d of None \<Rightarrow> None | Some (Inl e) \<Rightarrow> Some (s, Inl e)
      | Some (Inr (v, nl)) \<Rightarrow> Some (F v, Inr (G v nl)))
   = (case d of None \<Rightarrow> None | Some (Inl e) \<Rightarrow> Some (Inl e)
      | Some (Inr (v, nl)) \<Rightarrow> Some (Inr (G v nl)))"
  by (auto split: option.splits sum.splits)

text \<open>
  The outcome of resolving a descriptor depends on the variables of the reader only through
  the length of a nested block.
\<close>

lemma consume_field_with_scope:
  assumes o: "opts rA = opts rB" and p: "preprocess rA = preprocess rB"
    and len: "get_type field = ''nested'' \<longrightarrow> get_length field (vars rA) = get_length field (vars rB)"
  shows "map_option snd (consume_field_with sub_read rA field binary cur)
       = map_option snd (consume_field_with sub_read rB field binary cur)"
proof (cases "get_type field = ''nested''")
  case True
  with len have "get_length field (vars rA) = get_length field (vars rB)" by simp
  then show ?thesis
    unfolding consume_field_with_def Let_def map_option_snd_finish
    by (simp only: o p)
next
  case False
  then show ?thesis
    unfolding consume_field_with_def Let_def map_option_snd_finish
    by (simp only: o p if_False)
qed

lemma get_type_nested: "get_type field = ''nested'' \<longleftrightarrow> (\<exists>st len nm func subfields. field = NestedBlockField st len nm func subfields)"
  by (cases field) auto

lemma consume_field_with_nested_length:
  assumes "consume_field_with sub_read self field binary cur = Some (self', Inr x)"
    and "get_type field = ''nested''"
  shows "\<exists>n. get_length field (vars self) = Inr n"
proof -
  from assms(2) obtain st len nm func subfields
    where f: "field = NestedBlockField st len nm func subfields"
    by (auto simp: get_type_nested)
  show ?thesis
  proof (cases "get_length field (vars self)")
    case (Inl e)
    with assms(1) f show ?thesis
      by (simp add: consume_field_with_def)
  next
    case (Inr n)
    then show ?thesis by blast
  qed
qed

lemma consume_field_with_nested:
  "consume_field_with sub_read self (NestedBlockField st len nm func subfields) binary cur =
     (case get_length (NestedBlockField st len nm func subfields) (vars self) of
        Inl e \<Rightarrow> Some (self, Inl e)
      | Inr block_len \<Rightarrow>
          (case sub_read (Reader_init subfields (opts self) (compose (preprocess self) func))
                  (BinaryBlock_init binary (case st of Some s \<Rightarrow> s | None \<Rightarrow> cur) block_len) of
             None \<Rightarrow> None
           | Some (sub_reader, Inl e) \<Rightarrow> Some (self, Inl e)
           | Some (sub_reader, Inr v) \<Rightarrow>
               Some ((case nm of Some n \<Rightarrow> self\<lparr>vars := (vars self)(n \<mapsto> v)\<rparr> | None \<Rightarrow> self),
                     Inr (case st of Some s \<Rightarrow> s | None \<Rightarrow> cur,
                          FieldData
                            (get_label (NestedBlockField st len nm func subfields)
                               (case st of Some s \<Rightarrow> s | None \<Rightarrow> cur))
                            ''nested'' (case st of Some s \<Rightarrow> s | None \<Rightarrow> cur) v))))"
  by (simp add: consume_field_with_def split: sum.splits option.splits prod.splits)

lemma nested_unbound_name:
  assumes "vars self v = None"
  shows "consume_field_with sub_read self (NestedBlockField st (LenStr v) nm func subfields) binary cur
         = Some (self, Inl (KeyError v))"
  using assms by (simp add: consume_field_with_nested)

text \<open>
  C8: the length of a nested block given by name is looked up in the scope of the reader that
  resolves the block, and in no other. The reader made for the children of the block has an
  empty scope, and the outcome for the block is the read of the view by that reader; it
  depends on the scope around the block through the looked-up length only. Whatever the
  children bind, the scope around the block changes at the name of the block alone. A name
  that is not bound in the scope makes the block fail with \<^verbatim>\<open>KeyError\<close>; in particular a
  name bound only by the children of an earlier sibling block does so.
\<close>

theorem nested_scope_is_own:
  "vars (Reader_init subfields (opts self) (compose (preprocess self) func)) = Map.empty
   \<and> (\<forall>block_len. get_length (NestedBlockField st len nm func subfields) (vars self) = Inr block_len \<longrightarrow>
         map_option snd (consume_field fuel self (NestedBlockField st len nm func subfields) binary cur)
         = (case read_binary fuel (Reader_init subfields (opts self) (compose (preprocess self) func))
                   (BinaryBlock_init binary (case st of Some s \<Rightarrow> s | None \<Rightarrow> cur) block_len) of
              None \<Rightarrow> None
            | Some (sub_reader, Inl e) \<Rightarrow> Some (Inl e)
            | Some (sub_reader, Inr v) \<Rightarrow>
                Some (Inr (case st of Some s \<Rightarrow> s | None \<Rightarrow> cur,
                       FieldData
                         (get_label (NestedBlockField st len nm func subfields)
                            (case st of Some s \<Rightarrow> s | None \<Rightarrow> cur))
                         ''nested'' (case st of Some s \<Rightarrow> s | None \<Rightarrow> cur) v))))
   \<and> (\<forall>r. opts r = opts self \<longrightarrow> preprocess r = preprocess self \<longrightarrow>
         get_length (NestedBlockField st len nm func subfields) (vars r)
           = get_length (NestedBlockField st len nm func subfields) (vars self) \<longrightarrow>
         map_option snd (consume_field fuel r (NestedBlockField st len nm func subfields) binary cur)
         = map_option snd (consume_field fuel self (NestedBlockField st len nm func subfields) binary cur))
   \<and> (\<forall>self' res. consume_field fuel self (NestedBlockField st len nm func subfields) binary cur
           = Some (self', res) \<longrightarrow>
         (\<forall>n. Some n \<noteq> nm \<longrightarrow> vars self' n = vars self n))
   \<and> (\<forall>v. len = LenStr v \<longrightarrow> vars self v = None \<longrightarrow>
         consume_field fuel self (NestedBlockField st len nm func subfields) binary cur
           = Some (self, Inl (KeyError v)))
   \<and> (\<forall>v self' new_loc d fuel' st' nm' func' subfields'.
         consume_field fuel self (NestedBlockField st len nm func subfields) binary cur
           = Some (self', Inr (new_loc, d)) \<longrightarrow>
         vars self v = None \<longrightarrow> nm \<noteq> Some v \<longrightarrow>
         consume_field fuel' self' (NestedBlockField st' (LenStr v) nm' func' subfields') binary new_loc
           = Some (self', Inl (KeyError v)))"
proof (intro conjI allI impI)
  show "vars (Reader_init subfields (opts self) (compose (preprocess self) func)) = Map.empty"
    by (simp add: Reader_init_def)
next
  fix block_len
  assume "get_length (NestedBlockField st len nm func subfields) (vars self) = Inr block_len"
  then show "map_option snd (consume_field fuel self (NestedBlockField st len nm func subfields) binary cur)
         = (case read_binary fuel (Reader_init subfields (opts self) (compose (preprocess self) func))
                   (BinaryBlock_init binary (case st of Some s \<Rightarrow> s | None \<Rightarrow> cur) block_len) of
              None \<Rightarrow> None
            | Some (sub_reader, Inl e) \<Rightarrow> Some (Inl e)
            | Some (sub_reader, Inr v) \<Rightarrow>
                Some (Inr (case st of Some s \<Rightarrow> s | None \<Rightarrow> cur,
                       FieldData
                         (get_label (NestedBlockField st len nm func subfields)
                            (case st of Some s \<Rightarrow> s | None \<Rightarrow> cur))
                         ''nested'' (case st of Some s \<Rightarrow> s | None \<Rightarrow> cur) v)))"
    unfolding consume_field_def consume_field_with_nested
    by (simp split: option.splits sum.splits prod.splits)
next
  fix r :: Reader
  assume "opts r = opts self" "preprocess r = preprocess self"
    "get_length (NestedBlockField st len nm func subfields) (vars r)
           = get_length (NestedBlockField st len nm func subfields) (vars self)"
  then show "map_option snd (consume_field fuel r (NestedBlockField st len nm func subfields) binary cur)
         = map_option snd (consume_field fuel self (NestedBlockField st len nm func subfields) binary cur)"
    unfolding consume_field_def by (intro consume_field_with_scope) simp_all
next
  fix self' :: Reader and res n
  assume "consume_field fuel self (NestedBlockField st len nm func subfields) binary cur
           = Some (self', res)" and "Some n \<noteq> nm"
  then show "vars self' n = vars self n"
    using consume_field_with_frame [of "read_binary fuel" self
        "NestedBlockField st len nm func subfields" binary cur self' res]
    by (simp add: consume_field_def)
next
  fix v
  assume "len = LenStr v" "vars self v = None"
  then show "consume_field fuel self (NestedBlockField st len nm func subfields) binary cur
           = Some (self, Inl (KeyError v))"
    by (simp add: consume_field_def nested_unbound_name)
next
  fix v and self' :: Reader and new_loc d fuel' st' nm' func' subfields'
  assume run: "consume_field fuel self (NestedBlockField st len nm func subfields) binary cur
           = Some (self', Inr (new_loc, d))"
    and v: "vars self v = None" and nm: "nm \<noteq> Some v"
  from consume_field_with_frame [OF run [unfolded consume_field_def]] nm
  have "vars self' v = vars self v" by simp
  with v show "consume_field fuel' self' (NestedBlockField st' (LenStr v) nm' func' subfields') binary new_loc
           = Some (self', Inl (KeyError v))"
    by (simp add: consume_field_def nested_unbound_name)
qed

theorem nested_scope_is_own_witness:
  "consume_field (Suc (Suc 0)) (Reader_init [] \<lparr>include_gaps = False\<rparr> None)
     (NestedBlockField None (LenInt 1) None None [IntField_init 8 False (Some ''n'') None None])
     (BinaryFile [1, 2, 3, 4] Little) 0
   = Some (Reader_init [] \<lparr>include_gaps = False\<rparr> None,
           Inr (0, FieldData ''untitled_nested_field_0x0'' ''nested'' 0
                     (VList [FieldData ''n'' ''u8'' 0 (VInt 1)])))
   \<and> consume_field 0 (Reader_init [] \<lparr>include_gaps = False\<rparr> None)
        (NestedBlockField None (LenStr ''n'') None None []) (BinaryFile [1, 2, 3, 4] Little) 0
      = Some (Reader_init [] \<lparr>include_gaps = False\<rparr> None, Inl (KeyError ''n''))
   \<and> map_option snd
        (read_binary (Suc (Suc (Suc 0)))
           (Reader_init
              [NestedBlockField_init None (LenInt 1) None [IntField_init 8 False (Some ''n'') None None] None,
               NestedBlockField_init None (LenStr ''n'') None [] None]
              \<lparr>include_gaps = False\<rparr> None)
           (BinaryFile [1, 2, 3, 4] Little))
      = Some (Inl (KeyError ''n''))"
proof -
  have h: "consume_field (Suc (Suc 0)) (Reader_init [] \<lparr>include_gaps = False\<rparr> None)
     (NestedBlockField None (LenInt 1) None None [IntField_init 8 False (Some ''n'') None None])
     (BinaryFile [1, 2, 3, 4] Little) 0
   = Some (Reader_init [] \<lparr>include_gaps = False\<rparr> None,
           Inr (0, FieldData ''untitled_nested_field_0x0'' ''nested'' 0
                     (VList [FieldData ''n'' ''u8'' 0 (VInt 1)])))"
    by (simp add: consume_field_def reader_eval)
  have u: "vars (Reader_init [] \<lparr>include_gaps = False\<rparr> None) ''n'' = None"
    by (simp add: Reader_init_def)
  have k: "consume_field 0 (Reader_init [] \<lparr>include_gaps = False\<rparr> None)
        (NestedBlockField None (LenStr ''n'') None None []) (BinaryFile [1, 2, 3, 4] Little) 0
      = Some (Reader_init [] \<lparr>include_gaps = False\<rparr> None, Inl (KeyError ''n''))"
    using nested_scope_is_own [THEN conjunct2, THEN conjunct2, THEN conjunct2, THEN conjunct2,
        THEN conjunct2, rule_format, OF h u]
    by simp
  have r: "map_option snd
        (read_binary (Suc (Suc (Suc 0)))
           (Reader_init
              [NestedBlockField_init None (LenInt 1) None [IntField_init 8 False (Some ''n'') None None] None,
               NestedBlockField_init None (LenStr ''n'') None [] None]
              \<lparr>include_gaps = False\<rparr> None)
           (BinaryFile [1, 2, 3, 4] Little))
      = Some (Inl (KeyError ''n''))"
    by (simp add: reader_eval)
  from h k r show ?thesis by (intro conjI)
qed

text \<open>
  C10: a descriptor that resolves binds its value under its name, replacing whatever the
  scope held for that name; a length given by that name then resolves against the new value
  (and is rejected when that value is not an integer). An earlier binding of the name does
  not change the outcome: the descriptor resolves to the same node and the same scope, with
  no error.
\<close>

theorem later_binding_overwrites:
  assumes run: "consume_field fuel self field binary cur = Some (self', Inr (new_loc, d))"
    and nm: "get_name field = Some n"
  shows "vars self' = (vars self)(n \<mapsto> val d)
       \<and> get_length (NestedBlockField st (LenStr n) nm2 func2 subfields2) (vars self')
           = (case val d of VInt k \<Rightarrow> Inr k | _ \<Rightarrow> Inl ValueError)
       \<and> (\<forall>old. (get_type field = ''nested'' \<longrightarrow>
                    get_length field ((vars self)(n \<mapsto> old)) = get_length field (vars self)) \<longrightarrow>
              consume_field fuel (self\<lparr>vars := (vars self)(n \<mapsto> old)\<rparr>) field binary cur
                = Some (self', Inr (new_loc, d)))"
proof -
  note run' = run [unfolded consume_field_def]
  from consume_field_with_result [OF run'] nm
  have upd: "self' = self\<lparr>vars := (vars self)(n \<mapsto> val d)\<rparr>"
    by auto
  then have a: "vars self' = (vars self)(n \<mapsto> val d)" by simp
  have b: "get_length (NestedBlockField st (LenStr n) nm2 func2 subfields2) (vars self')
           = (case val d of VInt k \<Rightarrow> Inr k | _ \<Rightarrow> Inl ValueError)"
    by (simp add: a split: py_val.splits)
  have c: "consume_field fuel (self\<lparr>vars := (vars self)(n \<mapsto> old)\<rparr>) field binary cur
                = Some (self', Inr (new_loc, d))"
    if len: "get_type field = ''nested'' \<longrightarrow>
                    get_length field ((vars self)(n \<mapsto> old)) = get_length field (vars self)" for old
  proof -
    let ?s = "self\<lparr>vars := (vars self)(n \<mapsto> old)\<rparr>"
    have "map_option snd (consume_field_with (read_binary fuel) ?s field binary cur)
        = map_option snd (consume_field_with (read_binary fuel) self field binary cur)"
      by (rule consume_field_with_scope) (use len in simp_all)
    with run' obtain s2 where r2: "consume_field_with (read_binary fuel) ?s field binary cur
        = Some (s2, Inr (new_loc, d))"
      by (cases "consume_field_with (read_binary fuel) ?s field binary cur") auto
    from consume_field_with_result [OF r2] nm
    have "s2 = ?s\<lparr>vars := (vars ?s)(n \<mapsto> val d)\<rparr>" by auto
    with upd have "s2 = self'" by simp
    with r2 show ?thesis by (simp add: consume_field_def)
  qed
  from a b c show ?thesis by blast
qed

theorem later_binding_overwrites_witness:
  "consume_field 0
     ((Reader_init [] \<lparr>include_gaps = True\<rparr> None)\<lparr>vars := [''n'' \<mapsto> VInt 1]\<rparr>)
     (IntField_init 8 False (Some ''n'') None None) (BinaryFile [1, 2, 3, 4] Little) 1
   = Some ((Reader_init [] \<lparr>include_gaps = True\<rparr> None)\<lparr>vars := [''n'' \<mapsto> VInt 2]\<rparr>,
           Inr (2, FieldData ''n'' ''u8'' 1 (VInt 2)))
   \<and> vars ((Reader_init [] \<lparr>include_gaps = True\<rparr> None)\<lparr>vars := [''n'' \<mapsto> VInt 2]\<rparr>)
       = [''n'' \<mapsto> VInt 2]
   \<and> get_length (NestedBlockField None (LenStr ''n'') None None [])
        (vars ((Reader_init [] \<lparr>include_gaps = True\<rparr> None)\<lparr>vars := [''n'' \<mapsto> VInt 2]\<rparr>))
       = Inr 2
   \<and> map_option snd
        (read_binary (Suc (Suc (Suc (Suc (Suc 0)))))
           (Reader_init [IntField_init 8 False (Some ''n'') None None,
                         IntField_init 8 False (Some ''n'') None None,
                         NestedBlockField_init None (LenStr ''n'') None [] None]
              \<lparr>include_gaps = True\<rparr> None)
           (BinaryFile [1, 2, 3, 4] Little))
      = Some (Inr (VList
          [FieldData ''n'' ''u8'' 0 (VInt 1),
           FieldData ''n'' ''u8'' 1 (VInt 2),
           FieldData ''untitled_nested_field_0x2'' ''nested'' 2
             (VList [FieldData ''untitled_unknown_field_0x0'' ''unknown'' 0 (VBytes [3, 4])]),
           FieldData ''untitled_unknown_field_0x2'' ''unknown'' 2 (VBytes [3, 4])]))"
proof -
  have h: "consume_field 0
     ((Reader_init [] \<lparr>include_gaps = True\<rparr> None)\<lparr>vars := [''n'' \<mapsto> VInt 1]\<rparr>)
     (IntField_init 8 False (Some ''n'') None None) (BinaryFile [1, 2, 3, 4] Little) 1
   = Some ((Reader_init [] \<lparr>include_gaps = True\<rparr> None)\<lparr>vars := [''n'' \<mapsto> VInt 2]\<rparr>,
           Inr (2, FieldData ''n'' ''u8'' 1 (VInt 2)))"
    by (simp add: consume_field_def reader_eval)
  have nm: "get_name (IntField_init 8 False (Some ''n'') None None) = Some ''n''"
    by (simp add: IntField_init_def)
  have r: "map_option snd
        (read_binary (Suc (Suc (Suc (Suc (Suc 0)))))
           (Reader_init [IntField_init 8 False (Some ''n'') None None,
                         IntField_init 8 False (Some ''n'') None None,
                         NestedBlockField_init None (LenStr ''n'') None [] None]
              \<lparr>include_gaps = True\<rparr> None)
           (BinaryFile [1, 2, 3, 4] Little))
      = Some (Inr (VList
          [FieldData ''n'' ''u8'' 0 (VInt 1),
           FieldData ''n'' ''u8'' 1 (VInt 2),
           FieldData ''untitled_nested_field_0x2'' ''nested'' 2
             (VList [FieldData ''untitled_unknown_field_0x0'' ''unknown'' 0 (VBytes [3, 4])]),
           FieldData ''untitled_unknown_field_0x2'' ''unknown'' 2 (VBytes [3, 4])]))"
    by (simp add: reader_eval)
  from later_binding_overwrites [OF h nm, of None None None "[]"] h r
  show ?thesis by (simp add: Reader_init_def)
qed

lemma consume_loop_frame:
  "consume_loop fuel self limit binary queue cur acc = Some (self', res) \<Longrightarrow>
   rfields self' = rfields self \<and> opts self' = opts self \<and> preprocess self' = preprocess self
   \<and> dom (vars self) \<subseteq> dom (vars self')
   \<and> (\<forall>n. Some n \<notin> get_name ` set queue \<longrightarrow> vars self' n = vars self n)"
proof (induction fuel arbitrary: self queue cur acc)
  case 0
  then show ?case by simp
next
  case (Suc fuel)
  show ?case
  proof (cases "get_next_field self queue cur limit")
    case (Inl e)
    with Suc.prems show ?thesis by simp
  next
    case (Inr sel)
    obtain nfo queue' where sel: "sel = (nfo, queue')" by (cases sel)
    show ?thesis
    proof (cases nfo)
      case None
      with Suc.prems Inr sel show ?thesis by simp
    next
      case (Some nf)
      note q = get_next_field_queue [OF Inr [unfolded sel Some]]
      show ?thesis
      proof (cases "consume_field_with (read_binary fuel) self nf binary cur")
        case None
        with Suc.prems Inr sel Some show ?thesis by simp
      next
        case step: (Some out)
        obtain s1 r1 where out: "out = (s1, r1)" by (cases out)
        note fr = consume_field_with_frame [OF step [unfolded out]]
        show ?thesis
        proof (cases r1)
          case (Inl e)
          with Suc.prems Inr sel Some step out have "self' = s1" by simp
          with fr q show ?thesis by (auto simp: image_iff) 
        next
          case r1: (Inr nd)
          obtain new_loc data where nd: "nd = (new_loc, data)" by (cases nd)
          from Suc.prems Inr sel Some step out r1 nd
          have rest: "consume_loop fuel s1 limit binary queue' new_loc (acc @ [data]) = Some (self', res)"
            by simp
          note ih = Suc.IH [OF rest]
          have "\<forall>n. Some n \<notin> get_name ` set queue \<longrightarrow> vars self' n = vars self n"
          proof (intro allI impI)
            fix n assume n: "Some n \<notin> get_name ` set queue"
            then have "Some n \<notin> get_name ` set queue'" using q by auto
            then have a: "vars self' n = vars s1 n" using ih by blast
            have "Some n \<noteq> get_name nf" using n q by (metis image_eqI option.distinct(1))
            then have "vars s1 n = vars self n" using fr by blast
            with a show "vars self' n = vars self n" by simp
          qed
          moreover have "dom (vars self) \<subseteq> dom (vars self')"
            using ih fr by (meson order_trans)
          ultimately show ?thesis using ih fr by simp
        qed
      qed
    qed
  qed
qed

lemma read_binary_frame:
  assumes "read_binary fuel self binary = Some (self', res)"
  shows "rfields self' = rfields self \<and> opts self' = opts self \<and> preprocess self' = preprocess self
       \<and> dom (vars self) \<subseteq> dom (vars self')
       \<and> (\<forall>n. Some n \<notin> get_name ` set (rfields self) \<longrightarrow> vars self' n = vars self n)"
proof (cases "consume_loop fuel self (Some (get_size binary)) binary (rfields self) 0 []")
  case None
  with assms show ?thesis by (simp add: StructField_init_def)
next
  case (Some out)
  obtain s1 r1 where out: "out = (s1, r1)" by (cases out)
  from assms Some out have "self' = s1"
    by (simp add: StructField_init_def split: sum.splits prod.splits)
  with consume_loop_frame [OF Some [unfolded out]] show ?thesis by simp
qed

lemma read_one_named_field:
  "read_binary (Suc (Suc 0))
     (Reader_init [IntField_init 8 False (Some ''n'') None None] \<lparr>include_gaps = False\<rparr> None)
     (BinaryFile [7] Little)
   = Some ((Reader_init [IntField_init 8 False (Some ''n'') None None] \<lparr>include_gaps = False\<rparr> None)
             \<lparr>vars := [''n'' \<mapsto> VInt 7]\<rparr>,
           Inr (VList [FieldData ''n'' ''u8'' 0 (VInt 7)]))"
  by (simp add: reader_eval)

lemma read_length_by_name:
  "read_binary (Suc (Suc (Suc (Suc (Suc 0)))))
     (Reader_init [IntField_init 32 False (Some ''a'') (Some 0) None,
                   IntField_init 32 False (Some ''len'') (Some 4) None,
                   NestedBlockField_init (Some 8) (LenStr ''len'') None [UnknownField_init 5 None] None]
        \<lparr>include_gaps = False\<rparr> None)
     (BinaryFile [1, 0, 0, 0, 5, 0, 0, 0, 0xAA, 0xBB, 0xCC, 0xDD, 0xEE] Little)
   = Some ((Reader_init [IntField_init 32 False (Some ''a'') (Some 0) None,
                   IntField_init 32 False (Some ''len'') (Some 4) None,
                   NestedBlockField_init (Some 8) (LenStr ''len'') None [UnknownField_init 5 None] None]
              \<lparr>include_gaps = False\<rparr> None)
             \<lparr>vars := [''a'' \<mapsto> VInt 1, ''len'' \<mapsto> VInt 5]\<rparr>,
           Inr (VList [FieldData ''a'' ''u32'' 0 (VInt 1),
                       FieldData ''len'' ''u32'' 4 (VInt 5),
                       FieldData ''untitled_nested_field_0x8'' ''nested'' 8
                         (VList [FieldData ''untitled_unknown_field_0x0'' ''unknown'' 0
                                   (VBytes [0xAA, 0xBB, 0xCC, 0xDD, 0xEE])])]))"
  by (simp add: reader_eval)

text \<open>
  Bindings left by earlier reads are never looked up. A reference to a name is resolved only
  after the siblings before it; if one of them carries the name, it has bound it anew in this
  read, and if none does, no read of this schema can have bound the name without failing at
  the reference first.
\<close>

lemma get_length_ref:
  assumes "\<And>n. length_ref field = Some n \<Longrightarrow> va n = vb n"
  shows "get_length field va = get_length field vb"
proof (cases field)
  case (NestedBlockField st len nm func subfields)
  then show ?thesis using assms by (cases len) simp_all
qed simp_all

lemma get_length_bound:
  assumes "get_length field va = Inr k" and "length_ref field = Some n"
  shows "va n \<noteq> None"
proof (cases field)
  case (NestedBlockField st len nm func subfields)
  then show ?thesis using assms by (cases len) (auto split: option.splits)
qed (use assms in simp_all)

lemma get_next_field_shape:
  assumes "get_next_field self queue cur limit = Inr (Some nf, queue')"
  shows "(queue' = queue \<and> get_name nf = None \<and> get_type nf = ''unknown'') \<or> queue = nf # queue'"
  using assms
  by (auto simp: get_next_field_def UnknownField_init_def Let_def
      split: if_splits list.splits option.splits)

lemma drop_pop:
  assumes "drop k flds = nf # queue'"
  shows "k < length flds \<and> nf = flds ! k \<and> queue' = drop (Suc k) flds"
proof -
  from assms have k: "k < length flds" by (metis drop_all list.distinct(1) not_le)
  from Cons_nth_drop_Suc [OF k] assms show ?thesis using k by simp
qed

lemma length_ref_nested: "length_ref field = Some n \<Longrightarrow> get_type field = ''nested''"
  by (cases field) auto

lemma resolved_ref_bound:
  assumes run: "consume_field_with sub_read self field binary cur = Some (s1, Inr x)"
    and ref: "length_ref field = Some n"
  shows "vars self n \<noteq> None"
proof -
  from consume_field_with_nested_length [OF run length_ref_nested [OF ref]]
  obtain k where "get_length field (vars self) = Inr k" by blast
  from get_length_bound [OF this ref] show ?thesis .
qed

lemma step_shadowed:
  assumes run: "consume_field_with sub_read self (flds ! k) binary cur = Some (s1, Inr x)"
    and k: "k < length flds"
    and sh: "shadowed flds (vars self)"
    and K: "\<forall>j<k. \<forall>n. length_ref (flds ! j) = Some n \<longrightarrow> vars self n \<noteq> None"
  shows "shadowed flds (vars s1)
       \<and> (\<forall>j<Suc k. \<forall>n. length_ref (flds ! j) = Some n \<longrightarrow> vars s1 n \<noteq> None)"
proof -
  note fr = consume_field_with_frame [OF run]
  have grow: "vars s1 n \<noteq> None" if "vars self n \<noteq> None" for n
    using fr that by (auto simp: dom_def subset_iff)
  have K': "\<forall>j<Suc k. \<forall>n. length_ref (flds ! j) = Some n \<longrightarrow> vars self n \<noteq> None"
  proof (intro allI impI)
    fix j n assume j: "j < Suc k" and ref: "length_ref (flds ! j) = Some n"
    show "vars self n \<noteq> None"
    proof (cases "j = k")
      case True
      with ref resolved_ref_bound [OF run] show ?thesis by simp
    next
      case False
      with j have "j < k" by simp
      with K ref show ?thesis by blast
    qed
  qed
  have "shadowed flds (vars s1)"
    unfolding shadowed_def
  proof (intro allI impI)
    fix j n
    assume j: "j < length flds" and ref: "length_ref (flds ! j) = Some n"
      and b: "vars s1 n \<noteq> None"
    show "\<exists>i<j. get_name (flds ! i) = Some n"
    proof (cases "vars self n = None")
      case False
      with sh j ref show ?thesis unfolding shadowed_def by blast
    next
      case True
      with b fr have nm: "get_name (flds ! k) = Some n" by metis
      from True K' ref have "\<not> j < Suc k" by blast
      then have "k < j" by simp
      with nm show ?thesis by blast
    qed
  qed
  with K' grow show ?thesis by blast
qed

lemma consume_loop_shadowed:
  "consume_loop fuel self limit binary queue cur acc = Some (self', res) \<Longrightarrow>
   queue = drop k flds \<Longrightarrow> shadowed flds (vars self) \<Longrightarrow>
   \<forall>j<k. \<forall>n. length_ref (flds ! j) = Some n \<longrightarrow> vars self n \<noteq> None \<Longrightarrow>
   shadowed flds (vars self')"
proof (induction fuel arbitrary: self queue cur acc k)
  case 0
  then show ?case by simp
next
  case (Suc fuel)
  show ?case
  proof (cases "get_next_field self queue cur limit")
    case (Inl e)
    with Suc.prems show ?thesis by simp
  next
    case (Inr sel)
    obtain nfo queue' where sel: "sel = (nfo, queue')" by (cases sel)
    show ?thesis
    proof (cases nfo)
      case None
      with Suc.prems Inr sel show ?thesis by simp
    next
      case (Some nf)
      note shape = get_next_field_shape [OF Inr [unfolded sel Some]]
      show ?thesis
      proof (cases "consume_field_with (read_binary fuel) self nf binary cur")
        case None
        with Suc.prems(1) Inr sel Some show ?thesis by simp
      next
        case step: (Some out)
        obtain s1 r1 where out: "out = (s1, r1)" by (cases out)
        note res1 = consume_field_with_result [OF step [unfolded out]]
        show ?thesis
        proof (cases r1)
          case (Inl e)
          with Suc.prems(1) Inr sel Some step out have "self' = s1" by simp
          moreover from res1 Inl have "s1 = self" by simp
          ultimately show ?thesis using Suc.prems(3) by simp
        next
          case r1: (Inr nd)
          obtain new_loc data where nd: "nd = (new_loc, data)" by (cases nd)
          from Suc.prems(1) Inr sel Some step out r1 nd
          have rest: "consume_loop fuel s1 limit binary queue' new_loc (acc @ [data]) = Some (self', res)"
            by simp
          from shape show ?thesis
          proof
            assume a: "queue' = queue \<and> get_name nf = None \<and> get_type nf = ''unknown''"
            with res1 r1 have "s1 = self" by simp
            with Suc.IH [OF rest] a Suc.prems(2,3,4) show ?thesis by simp
          next
            assume "queue = nf # queue'"
            with Suc.prems(2) have pop: "k < length flds \<and> nf = flds ! k \<and> queue' = drop (Suc k) flds"
              using drop_pop by metis
            from step out r1 pop
            have run: "consume_field_with (read_binary fuel) self (flds ! k) binary cur = Some (s1, Inr nd)"
              by simp
            from step_shadowed [OF run _ Suc.prems(3,4)] pop
            have "shadowed flds (vars s1)"
              and "\<forall>j<Suc k. \<forall>n. length_ref (flds ! j) = Some n \<longrightarrow> vars s1 n \<noteq> None"
              by simp_all
            with Suc.IH [OF rest] pop show ?thesis by blast
          qed
        qed
      qed
    qed
  qed
qed

lemma scope_over_length:
  assumes k: "k < length flds" and sh: "shadowed flds V" and rel: "scope_over flds k V va vb"
  shows "get_length (flds ! k) va = get_length (flds ! k) vb"
proof (rule get_length_ref)
  fix n assume ref: "length_ref (flds ! k) = Some n"
  show "va n = vb n"
  proof (cases "\<exists>i<k. get_name (flds ! i) = Some n")
    case True
    with rel show ?thesis unfolding scope_over_def by metis
  next
    case False
    with rel have v: "vb n = None" "va n = V n" unfolding scope_over_def by metis+
    from False sh k ref have "V n = None" unfolding shadowed_def by blast
    with v show ?thesis by simp
  qed
qed

lemma scope_over_bind:
  assumes rel: "scope_over flds k V va vb"
  shows "scope_over flds (Suc k) V
           (case get_name (flds ! k) of Some nm \<Rightarrow> va(nm \<mapsto> v) | None \<Rightarrow> va)
           (case get_name (flds ! k) of Some nm \<Rightarrow> vb(nm \<mapsto> v) | None \<Rightarrow> vb)"
  unfolding scope_over_def
proof (intro allI)
  fix n
  from rel have r: "if (\<exists>i<k. get_name (flds ! i) = Some n) then va n = vb n
          else vb n = None \<and> va n = V n"
    unfolding scope_over_def by blast
  have ex: "(\<exists>i<Suc k. get_name (flds ! i) = Some n)
      \<longleftrightarrow> (\<exists>i<k. get_name (flds ! i) = Some n) \<or> get_name (flds ! k) = Some n"
    by (auto simp: less_Suc_eq)
  show "if \<exists>i<Suc k. get_name (flds ! i) = Some n
        then (case get_name (flds ! k) of None \<Rightarrow> va | Some nm \<Rightarrow> va(nm \<mapsto> v)) n
           = (case get_name (flds ! k) of None \<Rightarrow> vb | Some nm \<Rightarrow> vb(nm \<mapsto> v)) n
        else (case get_name (flds ! k) of None \<Rightarrow> vb | Some nm \<Rightarrow> vb(nm \<mapsto> v)) n = None
           \<and> (case get_name (flds ! k) of None \<Rightarrow> va | Some nm \<Rightarrow> va(nm \<mapsto> v)) n = V n"
    unfolding ex using r by (cases "get_name (flds ! k)") (auto split: if_splits)
qed

lemma result_vars:
  assumes "consume_field_with sub_read self field binary cur = Some (self', Inr (new_loc, d))"
  shows "vars self' = (case get_name field of Some nm \<Rightarrow> (vars self)(nm \<mapsto> val d) | None \<Rightarrow> vars self)
       \<and> opts self' = opts self \<and> preprocess self' = preprocess self"
  using consume_field_with_result [OF assms] by (auto split: option.splits)

lemma consume_loop_fresh:
  "queue = drop k flds \<Longrightarrow> shadowed flds V \<Longrightarrow>
   opts rA = opts rB \<Longrightarrow> preprocess rA = preprocess rB \<Longrightarrow>
   scope_over flds k V (vars rA) (vars rB) \<Longrightarrow>
   map_option snd (consume_loop fuel rA limit binary queue cur acc)
     = map_option snd (consume_loop fuel rB limit binary queue cur acc)"
proof (induction fuel arbitrary: rA rB queue k cur acc)
  case 0
  then show ?case by simp
next
  case (Suc fuel)
  note nxt = get_next_field_opts [OF Suc.prems(3), of queue cur limit]
  show ?case
  proof (cases "get_next_field rA queue cur limit")
    case (Inl e)
    have "get_next_field rB queue cur limit = Inl e" using nxt Inl by simp
    with Inl show ?thesis by simp
  next
    case (Inr sel)
    obtain nfo queue' where sel: "sel = (nfo, queue')" by (cases sel)
    have nxtB: "get_next_field rB queue cur limit = Inr (nfo, queue')"
      using nxt Inr sel by simp
    show ?thesis
    proof (cases nfo)
      case None
      with Inr sel nxtB show ?thesis by simp
    next
      case (Some nf)
      note shape = get_next_field_shape [OF Inr [unfolded sel Some]]
      have len: "get_type nf = ''nested'' \<longrightarrow> get_length nf (vars rA) = get_length nf (vars rB)"
        using shape
      proof
        assume "queue' = queue \<and> get_name nf = None \<and> get_type nf = ''unknown''"
        then show ?thesis by simp
      next
        assume "queue = nf # queue'"
        with Suc.prems(1) have pop: "k < length flds \<and> nf = flds ! k \<and> queue' = drop (Suc k) flds"
          using drop_pop by metis
        with scope_over_length [OF _ Suc.prems(2,5)] show ?thesis by simp
      qed
      note same = consume_field_with_scope [OF Suc.prems(3,4) len, of "read_binary fuel" binary cur]
      show ?thesis
      proof (cases "consume_field_with (read_binary fuel) rA nf binary cur")
        case None
        with same have "consume_field_with (read_binary fuel) rB nf binary cur = None" by simp
        with None Inr sel Some nxtB show ?thesis by simp
      next
        case stepA: (Some outA)
        obtain sA r1 where outA: "outA = (sA, r1)" by (cases outA)
        from same stepA outA obtain sB
          where stepB: "consume_field_with (read_binary fuel) rB nf binary cur = Some (sB, r1)"
          by (cases "consume_field_with (read_binary fuel) rB nf binary cur") auto
        show ?thesis
        proof (cases r1)
          case (Inl e)
          with stepA outA stepB Inr sel Some nxtB show ?thesis by simp
        next
          case r1: (Inr nd)
          obtain new_loc data where nd: "nd = (new_loc, data)" by (cases nd)
          note vA = result_vars [OF stepA [unfolded outA r1 nd]]
          note vB = result_vars [OF stepB [unfolded r1 nd]]
          have o1: "opts sA = opts sB" and p1: "preprocess sA = preprocess sB"
            using vA vB Suc.prems(3,4) by simp_all
          have "map_option snd (consume_loop fuel sA limit binary queue' new_loc (acc @ [data]))
              = map_option snd (consume_loop fuel sB limit binary queue' new_loc (acc @ [data]))"
            using shape
          proof
            assume a: "queue' = queue \<and> get_name nf = None \<and> get_type nf = ''unknown''"
            with vA vB Suc.prems(5) have "scope_over flds k V (vars sA) (vars sB)" by simp
            from Suc.IH [OF _ Suc.prems(2) o1 p1 this] a Suc.prems(1) show ?thesis by simp
          next
            assume "queue = nf # queue'"
            with Suc.prems(1) have pop: "k < length flds \<and> nf = flds ! k \<and> queue' = drop (Suc k) flds"
              using drop_pop by metis
            from scope_over_bind [OF Suc.prems(5), of "val data"] vA vB pop
            have "scope_over flds (Suc k) V (vars sA) (vars sB)" by simp
            from Suc.IH [OF _ Suc.prems(2) o1 p1 this] pop show ?thesis by simp
          qed
          with stepA outA stepB r1 nd Inr sel Some nxtB show ?thesis by simp
        qed
      qed
    qed
  qed
qed

lemma read_binary_outcome:
  "map_option snd (read_binary fuel self binary)
   = (case map_option snd
             (consume_loop fuel self (Some (get_size binary)) binary (rfields self) 0 []) of
        None \<Rightarrow> None
      | Some (Inl e) \<Rightarrow> Some (Inl e)
      | Some (Inr (end_loc, completed)) \<Rightarrow> Some (Inr (VList completed)))"
  by (simp add: StructField_init_def split: option.splits sum.splits prod.splits)

lemma read_binary_fresh:
  assumes "shadowed (rfields r) (vars r)"
  shows "map_option snd (read_binary fuel r binary)
       = map_option snd (read_binary fuel (Reader_init (rfields r) (opts r) (preprocess r)) binary)"
proof -
  let ?f = "Reader_init (rfields r) (opts r) (preprocess r)"
  have rel: "scope_over (rfields r) 0 (vars r) (vars r) (vars ?f)"
    by (simp add: scope_over_def Reader_init_def)
  have "map_option snd (consume_loop fuel r (Some (get_size binary)) binary (rfields r) 0 [])
      = map_option snd (consume_loop fuel ?f (Some (get_size binary)) binary (rfields r) 0 [])"
    by (rule consume_loop_fresh [where k = 0 and flds = "rfields r" and V = "vars r"])
      (use assms rel in \<open>simp_all add: Reader_init_def\<close>)
  moreover have "rfields ?f = rfields r" by (simp add: Reader_init_def)
  ultimately show ?thesis
    unfolding read_binary_outcome by simp
qed

lemma read_binary_shadowed:
  assumes run: "read_binary fuel r binary = Some (r', res)"
    and sh: "shadowed (rfields r) (vars r)"
  shows "shadowed (rfields r') (vars r')"
proof (cases "consume_loop fuel r (Some (get_size binary)) binary (rfields r) 0 []")
  case None
  with run show ?thesis by (simp add: StructField_init_def)
next
  case (Some out)
  obtain s1 r1 where out: "out = (s1, r1)" by (cases out)
  from run Some out have "r' = s1"
    by (simp add: StructField_init_def split: sum.splits prod.splits)
  moreover have "shadowed (rfields r) (vars s1)"
    by (rule consume_loop_shadowed [OF Some [unfolded out], where k = 0]) (use sh in simp_all)
  moreover have "rfields r' = rfields r" using read_binary_frame [OF run] by simp
  ultimately show ?thesis by simp
qed

lemma after_reads_frame:
  assumes "after_reads r r'"
  shows "rfields r' = rfields r \<and> opts r' = opts r \<and> preprocess r' = preprocess r
       \<and> dom (vars r) \<subseteq> dom (vars r')
       \<and> (\<forall>n. Some n \<notin> get_name ` set (rfields r) \<longrightarrow> vars r' n = vars r n)"
  using assms
proof (induction rule: after_reads.induct)
  case (no_read r)
  then show ?case by simp
next
  case (one_more r r1 fuel binary r2 res)
  from read_binary_frame [OF one_more.hyps(2)] one_more.IH
  show ?case by (auto simp: subset_iff)
qed

lemma after_reads_shadowed:
  assumes "after_reads r r'" and "shadowed (rfields r) (vars r)"
  shows "shadowed (rfields r') (vars r')"
  using assms
proof (induction rule: after_reads.induct)
  case (no_read r)
  then show ?case by simp
next
  case (one_more r r1 fuel binary r2 res)
  from one_more.IH [OF one_more.prems] read_binary_shadowed [OF one_more.hyps(2)]
  show ?case by simp
qed

lemma after_reads_trans:
  assumes "after_reads r1 r2" and "after_reads r0 r1"
  shows "after_reads r0 r2"
  using assms
proof (induction rule: after_reads.induct)
  case (no_read r)
  then show ?case by simp
next
  case (one_more r r1 fuel binary r2 res)
  from one_more.IH [OF one_more.prems] one_more.hyps(2) show ?case
    by (rule after_reads.one_more)
qed

lemma Reader_init_eq:
  "vars r = Map.empty \<Longrightarrow> Reader_init (rfields r) (opts r) (preprocess r) = r"
  by (simp add: Reader_init_def)

lemma read_outcome_fresh:
  assumes "after_reads r r'" and "vars r = Map.empty"
  shows "map_option snd (read_binary fuel r' binary) = map_option snd (read_binary fuel r binary)"
proof -
  have "shadowed (rfields r) (vars r)"
    using assms(2) by (simp add: shadowed_def)
  from after_reads_shadowed [OF assms(1) this]
  have "map_option snd (read_binary fuel r' binary)
      = map_option snd (read_binary fuel (Reader_init (rfields r') (opts r') (preprocess r')) binary)"
    by (rule read_binary_fresh)
  also have "Reader_init (rfields r') (opts r') (preprocess r') = r"
    using after_reads_frame [OF assms(1)] Reader_init_eq [OF assms(2)] by simp
  finally show ?thesis .
qed

text \<open>
  C6, as the specification states it: every read works on a fresh, empty scope, so that no
  binding made by one read is there during a later one. The scope is made once, by the
  constructor, and \<^verbatim>\<open>read_binary\<close> does not reset it: after the read of a schema with one
  byte named \<^verbatim>\<open>n\<close> over the file \<open>07\<close> the reader holds \<^verbatim>\<open>n\<close> bound to 7; a second read
  with that reader, here over an empty file, runs and ends with this binding in its scope,
  and a length given by the name \<^verbatim>\<open>n\<close> resolves to 7 in it.
\<close>

theorem scope_not_fresh_counterexample:
  "read_binary (Suc (Suc 0))
     (Reader_init [IntField_init 8 False (Some ''n'') None None] \<lparr>include_gaps = False\<rparr> None)
     (BinaryFile [7] Little)
   = Some ((Reader_init [IntField_init 8 False (Some ''n'') None None] \<lparr>include_gaps = False\<rparr> None)
             \<lparr>vars := [''n'' \<mapsto> VInt 7]\<rparr>,
           Inr (VList [FieldData ''n'' ''u8'' 0 (VInt 7)]))
   \<and> read_binary (Suc 0)
        ((Reader_init [IntField_init 8 False (Some ''n'') None None] \<lparr>include_gaps = False\<rparr> None)
             \<lparr>vars := [''n'' \<mapsto> VInt 7]\<rparr>)
        (BinaryFile [] Little)
      = Some ((Reader_init [IntField_init 8 False (Some ''n'') None None] \<lparr>include_gaps = False\<rparr> None)
                \<lparr>vars := [''n'' \<mapsto> VInt 7]\<rparr>,
              Inr (VList []))
   \<and> vars ((Reader_init [IntField_init 8 False (Some ''n'') None None] \<lparr>include_gaps = False\<rparr> None)
             \<lparr>vars := [''n'' \<mapsto> VInt 7]\<rparr>) \<noteq> Map.empty
   \<and> get_length (NestedBlockField_init None (LenStr ''n'') None [] None)
        (vars ((Reader_init [IntField_init 8 False (Some ''n'') None None] \<lparr>include_gaps = False\<rparr> None)
             \<lparr>vars := [''n'' \<mapsto> VInt 7]\<rparr>)) = Inr 7"
  using read_one_named_field by (simp add: reader_eval)

text \<open>
  C6, amended: after any number of reads the descriptor sequence of the reader (and its
  options and transform) are unchanged. Its scope is not renewed: it is the scope left by the
  reads before, no name bound in it is ever removed, and a read changes the bindings of the
  names of the top-level descriptors only. For a reader constructed with the empty scope
  these bindings never reach a result: the outcome of a read in any later state of the
  reader, be it a tree, an error or no return, is the outcome of that read in the state it
  was constructed in.
\<close>

theorem scope_persists_across_reads:
  assumes "after_reads r r'"
  shows "rfields r' = rfields r \<and> opts r' = opts r \<and> preprocess r' = preprocess r
       \<and> dom (vars r) \<subseteq> dom (vars r')
       \<and> (\<forall>n. Some n \<notin> get_name ` set (rfields r) \<longrightarrow> vars r' n = vars r n)
       \<and> (vars r = Map.empty \<longrightarrow>
            (\<forall>fuel binary. map_option snd (read_binary fuel r' binary)
                            = map_option snd (read_binary fuel r binary)))"
  using after_reads_frame [OF assms] read_outcome_fresh [OF assms] by blast

theorem scope_persists_across_reads_witness:
  "after_reads
     (Reader_init [IntField_init 8 False (Some ''n'') None None] \<lparr>include_gaps = False\<rparr> None)
     ((Reader_init [IntField_init 8 False (Some ''n'') None None] \<lparr>include_gaps = False\<rparr> None)
        \<lparr>vars := [''n'' \<mapsto> VInt 7]\<rparr>)
   \<and> rfields ((Reader_init [IntField_init 8 False (Some ''n'') None None] \<lparr>include_gaps = False\<rparr> None)
        \<lparr>vars := [''n'' \<mapsto> VInt 7]\<rparr>) = [IntField_init 8 False (Some ''n'') None None]
   \<and> vars ((Reader_init [IntField_init 8 False (Some ''n'') None None] \<lparr>include_gaps = False\<rparr> None)
        \<lparr>vars := [''n'' \<mapsto> VInt 7]\<rparr>) ''m'' = None
   \<and> map_option snd
        (read_binary (Suc (Suc 0))
           ((Reader_init [IntField_init 8 False (Some ''n'') None None] \<lparr>include_gaps = False\<rparr> None)
              \<lparr>vars := [''n'' \<mapsto> VInt 7]\<rparr>)
           (BinaryFile [7] Little))
      = Some (Inr (VList [FieldData ''n'' ''u8'' 0 (VInt 7)]))"
proof -
  have h: "after_reads
     (Reader_init [IntField_init 8 False (Some ''n'') None None] \<lparr>include_gaps = False\<rparr> None)
     ((Reader_init [IntField_init 8 False (Some ''n'') None None] \<lparr>include_gaps = False\<rparr> None)
        \<lparr>vars := [''n'' \<mapsto> VInt 7]\<rparr>)"
    by (rule one_more [OF no_read read_one_named_field])
  have e: "vars (Reader_init [IntField_init 8 False (Some ''n'') None None]
                   \<lparr>include_gaps = False\<rparr> None) = Map.empty"
    by (simp add: Reader_init_def)
  from scope_persists_across_reads [OF h] e
  have "map_option snd
        (read_binary (Suc (Suc 0))
           ((Reader_init [IntField_init 8 False (Some ''n'') None None] \<lparr>include_gaps = False\<rparr> None)
              \<lparr>vars := [''n'' \<mapsto> VInt 7]\<rparr>)
           (BinaryFile [7] Little))
      = map_option snd
        (read_binary (Suc (Suc 0))
           (Reader_init [IntField_init 8 False (Some ''n'') None None] \<lparr>include_gaps = False\<rparr> None)
           (BinaryFile [7] Little))"
    by blast
  with read_one_named_field h show ?thesis
    by (simp add: Reader_init_def)
qed

section \<open>Repeated reads\<close>

text \<open>
  C9: reading the same source again gives an equal result. In every state that a reader
  reaches from its construction by reads, a read of a source that returns an outcome (a
  result tree, or an error) is followed by the same outcome when the source is read again
  with that reader, at once or after any further reads, on the same fuel.
\<close>

theorem reread_same_outcome:
  assumes "after_reads (Reader_init flds options pre) r"
    and "read_binary fuel r binary = Some (r1, res)"
  shows "(\<exists>r2. read_binary fuel r1 binary = Some (r2, res))
       \<and> (\<forall>r'. after_reads r1 r' \<longrightarrow> (\<exists>r2. read_binary fuel r' binary = Some (r2, res)))"
proof -
  have e: "vars (Reader_init flds options pre) = Map.empty" by (simp add: Reader_init_def)
  have later: "\<exists>r2. read_binary fuel r' binary = Some (r2, res)" if "after_reads r1 r'" for r'
  proof -
    have "after_reads r r1" by (rule one_more [OF no_read assms(2)])
    then have "after_reads (Reader_init flds options pre) r1"
      using assms(1) by (rule after_reads_trans)
    with that have "after_reads (Reader_init flds options pre) r'"
      by (rule after_reads_trans)
    from read_outcome_fresh [OF this e, of fuel binary] read_outcome_fresh [OF assms(1) e, of fuel binary]
    have "map_option snd (read_binary fuel r' binary) = map_option snd (read_binary fuel r binary)"
      by simp
    with assms(2) show ?thesis
      by (cases "read_binary fuel r' binary") auto
  qed
  from later [OF no_read] later show ?thesis by blast
qed

theorem reread_same_outcome_witness:
  "\<exists>r2. read_binary (Suc (Suc (Suc (Suc (Suc 0)))))
     ((Reader_init [IntField_init 32 False (Some ''a'') (Some 0) None,
                   IntField_init 32 False (Some ''len'') (Some 4) None,
                   NestedBlockField_init (Some 8) (LenStr ''len'') None [UnknownField_init 5 None] None]
              \<lparr>include_gaps = False\<rparr> None)
             \<lparr>vars := [''a'' \<mapsto> VInt 1, ''len'' \<mapsto> VInt 5]\<rparr>)
     (BinaryFile [1, 0, 0, 0, 5, 0, 0, 0, 0xAA, 0xBB, 0xCC, 0xDD, 0xEE] Little)
   = Some (r2,
           Inr (VList [FieldData ''a'' ''u32'' 0 (VInt 1),
                       FieldData ''len'' ''u32'' 4 (VInt 5),
                       FieldData ''untitled_nested_field_0x8'' ''nested'' 8
                         (VList [FieldData ''untitled_unknown_field_0x0'' ''unknown'' 0
                                   (VBytes [0xAA, 0xBB, 0xCC, 0xDD, 0xEE])])]))"
  using reread_same_outcome [OF no_read read_length_by_name] by blast

end
